theory Spec2Isabelle
  imports Complex_Main "HOL-Library.Word"
begin

unbundle bit_operations_syntax

section \<open>Numbers\<close>

text \<open>
  Every number of the program is an IEEE-754 double. The operations on doubles are a
  parameter of the model: a record of the operators and \<^verbatim>\<open>Math\<close> functions the source
  uses. A theorem stated for every such record holds for the doubles of the JavaScript
  engine in particular, whatever their rounding and their NaN do.

  \<^item> \<open>flt a b\<close> is \<^verbatim>\<open>a < b\<close> (and \<^verbatim>\<open>b > a\<close>), \<open>fle a b\<close> is \<^verbatim>\<open>a <= b\<close> (and \<^verbatim>\<open>b >= a\<close>);
  \<^item> \<open>fpow2 a\<close> is \<^verbatim>\<open>a ** 2\<close>, \<open>frem a b\<close> is \<^verbatim>\<open>a % b\<close>;
  \<^item> \<open>fnum k\<close> is the double of the integer \<open>k\<close> (a literal or a count);
  \<^item> \<open>f1e_15\<close> and \<open>f1e_10\<close> are the literals \<^verbatim>\<open>1e-15\<close> and \<^verbatim>\<open>1e-10\<close>;
  \<^item> \<open>fnan\<close> is what \<^verbatim>\<open>undefined\<close> becomes in arithmetic;
  \<^item> \<open>ftruthy a\<close> is the truthiness of \<open>a\<close> (\<^verbatim>\<open>a || b\<close> takes \<open>b\<close> when it fails).
\<close>

record 'a arith =
  fadd :: "'a \<Rightarrow> 'a \<Rightarrow> 'a"
  fsub :: "'a \<Rightarrow> 'a \<Rightarrow> 'a"
  fmul :: "'a \<Rightarrow> 'a \<Rightarrow> 'a"
  fdiv :: "'a \<Rightarrow> 'a \<Rightarrow> 'a"
  fneg :: "'a \<Rightarrow> 'a"
  flt :: "'a \<Rightarrow> 'a \<Rightarrow> bool"
  fle :: "'a \<Rightarrow> 'a \<Rightarrow> bool"
  fsqrt :: "'a \<Rightarrow> 'a"
  fcos :: "'a \<Rightarrow> 'a"
  fsin :: "'a \<Rightarrow> 'a"
  fabs :: "'a \<Rightarrow> 'a"
  fpow2 :: "'a \<Rightarrow> 'a"
  frem :: "'a \<Rightarrow> 'a \<Rightarrow> 'a"
  fmax :: "'a \<Rightarrow> 'a \<Rightarrow> 'a"
  fnum :: "int \<Rightarrow> 'a"
  f1e_15 :: 'a
  f1e_10 :: 'a
  fpi :: 'a
  fnan :: 'a
  ftruthy :: "'a \<Rightarrow> bool"

text \<open>
  Exact real arithmetic, for running the model on concrete inputs. \<^verbatim>\<open>%\<close> truncates
  the quotient towards zero. The reals have no NaN: \<open>fnan\<close> is a placeholder, and the
  concrete runs below never read a missing parameter or matrix entry.
\<close>

definition real_rem :: "real \<Rightarrow> real \<Rightarrow> real" where
  "real_rem x y =
     x - y * of_int (if 0 \<le> x / y then \<lfloor>x / y\<rfloor> else \<lceil>x / y\<rceil>)"

definition real_arith :: "real arith" where
  "real_arith =
     \<lparr> fadd = (+), fsub = (-), fmul = (*), fdiv = (/), fneg = uminus,
       flt = (<), fle = (\<le>), fsqrt = sqrt, fcos = cos, fsin = sin, fabs = abs,
       fpow2 = (\<lambda>x. x\<^sup>2), frem = real_rem, fmax = max, fnum = of_int,
       f1e_15 = 1 / 10 ^ 15, f1e_10 = 1 / 10 ^ 10, fpi = pi, fnan = 0,
       ftruthy = (\<lambda>x. x \<noteq> 0) \<rparr>"

section \<open>Instructions\<close>

text \<open>
  A qubit handle is a JavaScript Symbol, of the abstract type \<open>'q\<close>. The \<^verbatim>\<open>qubit\<close>
  field of an instruction is one handle, an array of handles (two or more: the arrays
  the recorder builds have two or three) or \<^verbatim>\<open>null\<close>.

  The fields of an instruction object are those \<^verbatim>\<open>Circuit.addOp\<close> writes. The objects
  the transpiler builds have no \<^verbatim>\<open>condition\<close>, \<^verbatim>\<open>body\<close> and \<^verbatim>\<open>timestamp\<close>
  (\<open>None\<close>), and its CNOTs have no \<^verbatim>\<open>params\<close>: every reader of \<^verbatim>\<open>params\<close> takes a
  missing one for the empty array, which is how it is modelled. Instructions are values:
  the optimizer's in-place updates of an instruction are updates of its slot (no
  instruction object stands twice in a list the recorder built).
\<close>

datatype 'q qref = Single 'q | Tuple 'q 'q "'q list" | NoQubit

datatype ('q, 'a) instr =
  Instr (gate: string) (qubit: "'q qref") (params: "'a list")
        (condition: "('q \<times> nat) option") (body: "('q, 'a) instr list option")
        (timestamp: "nat option")

datatype 'q error =
    UsageNotAllocated 'q
  | PhysicsSelfControl 'q
  | UsageSelfSwap
  | FatalMustReset 'q
  | TypeError

definition isArray :: "'q qref \<Rightarrow> bool" where
  "isArray r = (case r of Tuple a b rest \<Rightarrow> True | _ \<Rightarrow> False)"

text \<open>\<^verbatim>\<open>Array.isArray(op.qubit) ? op.qubit : [op.qubit]\<close>; \<open>None\<close> is \<^verbatim>\<open>null\<close>.\<close>

definition qubitsOf :: "'q qref \<Rightarrow> 'q option list" where
  "qubitsOf r =
     (case r of
        Single q \<Rightarrow> [Some q]
      | Tuple a b rest \<Rightarrow> map Some (a # b # rest)
      | NoQubit \<Rightarrow> [None])"

section \<open>Transpiler\<close>

definition mkU3 :: "'q qref \<Rightarrow> 'a \<Rightarrow> 'a \<Rightarrow> 'a \<Rightarrow> ('q, 'a) instr" where
  "mkU3 q theta phi lam = Instr ''U3'' q [theta, phi, lam] None None None"

definition mkCNOT :: "'q \<Rightarrow> 'q \<Rightarrow> ('q, 'a) instr" where
  "mkCNOT c t = Instr ''CNOT'' (Tuple c t []) [] None None None"

text \<open>\<^verbatim>\<open>params[0]\<close>: \<^verbatim>\<open>undefined\<close> when the array is empty.\<close>

definition param0 :: "'a arith \<Rightarrow> 'a list \<Rightarrow> 'a" where
  "param0 A ps = (case ps of [] \<Rightarrow> fnan A | p # rest \<Rightarrow> p)"

definition halfPi :: "'a arith \<Rightarrow> 'a" where
  "halfPi A = fdiv A (fpi A) (fnum A 2)"

text \<open>
  \<^verbatim>\<open>Transpiler.#decompose\<close>. Destructuring \<^verbatim>\<open>const [q1, q2] = qubit\<close> throws a
  TypeError when \<^verbatim>\<open>qubit\<close> is a Symbol or \<^verbatim>\<open>null\<close>, and takes the first two elements
  of an array.
\<close>

definition decompose :: "'a arith \<Rightarrow> ('q, 'a) instr \<Rightarrow> 'q error + ('q, 'a) instr list" where
  "decompose A op =
     (let g = gate op; q = qubit op; ps = params op in
      if g = ''H'' then Inr [mkU3 q (halfPi A) (fnum A 0) (fpi A)]
      else if g = ''X'' then Inr [mkU3 q (fpi A) (fnum A 0) (fpi A)]
      else if g = ''Y'' then Inr [mkU3 q (fpi A) (halfPi A) (halfPi A)]
      else if g = ''Z'' then Inr [mkU3 q (fnum A 0) (fnum A 0) (fpi A)]
      else if g = ''RX'' then
        Inr [mkU3 q (param0 A ps) (fdiv A (fneg A (fpi A)) (fnum A 2)) (halfPi A)]
      else if g = ''RY'' then Inr [mkU3 q (param0 A ps) (fnum A 0) (fnum A 0)]
      else if g = ''RZ'' then Inr [mkU3 q (fnum A 0) (fnum A 0) (param0 A ps)]
      else if g = ''SWAP'' then
        (case q of
           Tuple q1 q2 rest \<Rightarrow> Inr [mkCNOT q1 q2, mkCNOT q2 q1, mkCNOT q1 q2]
         | _ \<Rightarrow> Inl TypeError)
      else if g = ''CZ'' then
        (case q of
           Tuple ctrl trgt rest \<Rightarrow>
             Inr [mkU3 (Single trgt) (halfPi A) (fnum A 0) (fpi A),
                  mkCNOT ctrl trgt,
                  mkU3 (Single trgt) (halfPi A) (fnum A 0) (fpi A)]
         | _ \<Rightarrow> Inl TypeError)
      else Inr [op])"

text \<open>\<^verbatim>\<open>Transpiler.transpile\<close>: the loop pushes each decomposition onto \<^verbatim>\<open>nativeOps\<close>.\<close>

fun transpile_loop ::
  "'a arith \<Rightarrow> ('q, 'a) instr list \<Rightarrow> ('q, 'a) instr list \<Rightarrow> 'q error + ('q, 'a) instr list"
where
  "transpile_loop A [] nativeOps = Inr nativeOps"
| "transpile_loop A (op # rest) nativeOps =
     (case decompose A op of
        Inl e \<Rightarrow> Inl e
      | Inr decomposed \<Rightarrow> transpile_loop A rest (nativeOps @ decomposed))"

definition transpile :: "'a arith \<Rightarrow> ('q, 'a) instr list \<Rightarrow> 'q error + ('q, 'a) instr list" where
  "transpile A instructions = transpile_loop A instructions []"



section \<open>Optimizer\<close>

datatype role = Control | Target

record rule =
  rgate :: string
  commutesWith :: "string list"
  rrole :: role

definition COMMUTATION_RULES :: "rule list" where
  "COMMUTATION_RULES =
     [\<lparr>rgate = ''Z'', commutesWith = [''CNOT'', ''CZ''], rrole = Control\<rparr>,
      \<lparr>rgate = ''S'', commutesWith = [''CNOT'', ''CZ'', ''T'', ''RZ''], rrole = Control\<rparr>,
      \<lparr>rgate = ''T'', commutesWith = [''CNOT'', ''CZ'', ''S'', ''RZ''], rrole = Control\<rparr>,
      \<lparr>rgate = ''RZ'', commutesWith = [''CNOT'', ''CZ'', ''S'', ''T''], rrole = Control\<rparr>,
      \<lparr>rgate = ''X'', commutesWith = [''CNOT''], rrole = Target\<rparr>,
      \<lparr>rgate = ''RX'', commutesWith = [''CNOT''], rrole = Target\<rparr>]"

definition twoPi :: "'a arith \<Rightarrow> 'a" where
  "twoPi A = fmul A (fnum A 2) (fpi A)"

text \<open>\<^verbatim>\<open>Optimizer.#isIdentity\<close>, with \<^verbatim>\<open>EPSILON = 1e-10\<close>.\<close>

definition isIdentity :: "'a arith \<Rightarrow> ('q, 'a) instr \<Rightarrow> bool" where
  "isIdentity A op =
     (if params op = [] then False
      else if gate op \<in> {''RX'', ''RY'', ''RZ''} then
        (let angle = fabs A (frem A (param0 A (params op)) (twoPi A)) in
         flt A angle (f1e_10 A) \<or> flt A (fabs A (fsub A angle (twoPi A))) (f1e_10 A))
      else if gate op = ''U3'' then
        list_all (\<lambda>p. flt A (fabs A (frem A p (twoPi A))) (f1e_10 A)) (params op)
      else False)"

text \<open>
  \<^verbatim>\<open>Optimizer.#areQubitsEqual\<close>: \<^verbatim>\<open>===\<close> on two Symbols or two \<^verbatim>\<open>null\<close>s, element by
  element on two arrays.
\<close>

definition areQubitsEqual :: "'q qref \<Rightarrow> 'q qref \<Rightarrow> bool" where
  "areQubitsEqual q1 q2 =
     (case (q1, q2) of
        (Single a, Single b) \<Rightarrow> a = b
      | (NoQubit, NoQubit) \<Rightarrow> True
      | (Tuple a b r, Tuple a' b' r') \<Rightarrow>
          (if length (a # b # r) \<noteq> length (a' # b' # r') then False
           else list_all2 (=) (a # b # r) (a' # b' # r'))
      | _ \<Rightarrow> False)"

text \<open>
  \<^verbatim>\<open>Optimizer.#canCommute\<close>. \<^verbatim>\<open>multiQubitGate.qubit[0]\<close> is the first element of an
  array, \<^verbatim>\<open>undefined\<close> on a Symbol (which equals no handle and not \<^verbatim>\<open>null\<close>), and a
  TypeError on \<^verbatim>\<open>null\<close>.
\<close>

definition canCommute :: "('q, 'a) instr \<Rightarrow> ('q, 'a) instr \<Rightarrow> 'q error + bool" where
  "canCommute gateA gateB =
     (let qA = qubitsOf (qubit gateA);
          qB = qubitsOf (qubit gateB);
          shared = filter (\<lambda>q. q \<in> set qB) qA
      in
      if shared = [] then Inr True
      else
        (case find (\<lambda>r. (rgate r = gate gateA \<and> gate gateB \<in> set (commutesWith r)) \<or>
                        (rgate r = gate gateB \<and> gate gateA \<in> set (commutesWith r)))
                COMMUTATION_RULES of
           None \<Rightarrow> Inr False
         | Some r \<Rightarrow>
             (let multiQubitGate = (if isArray (qubit gateA) then gateA else gateB);
                  sharedQubit = hd shared
              in
              case qubit multiQubitGate of
                NoQubit \<Rightarrow> Inl TypeError
              | Single s \<Rightarrow>
                  (let isControl = False in
                   if rrole r = Control \<and> isControl then Inr True
                   else if rrole r = Target \<and> \<not> isControl then Inr True
                   else Inr False)
              | Tuple a b rest \<Rightarrow>
                  (let isControl = (Some a = sharedQubit) in
                   if rrole r = Control \<and> isControl then Inr True
                   else if rrole r = Target \<and> \<not> isControl then Inr True
                   else Inr False))))"

text \<open>
  The optimizer's state: \<^verbatim>\<open>wireMap\<close>, from a qubit (or \<^verbatim>\<open>null\<close>) to the slots of
  \<^verbatim>\<open>optimized\<close> that touch it, and \<^verbatim>\<open>optimized\<close>, whose nulled slots are \<open>None\<close>.
\<close>

type_synonym 'q wires = "'q option \<rightharpoonup> nat list"

definition slotAt :: "('q, 'a) instr option list \<Rightarrow> nat \<Rightarrow> ('q, 'a) instr option" where
  "slotAt optimized i = (if i < length optimized then optimized ! i else None)"

text \<open>
  The loop of \<^verbatim>\<open>Optimizer.#findCommutingPartner\<close>, over the wire from its last entry
  backwards. It returns the partner's slot with the partner.
\<close>

fun scanWire ::
  "('q, 'a) instr \<Rightarrow> ('q, 'a) instr option list \<Rightarrow> nat list \<Rightarrow>
   'q error + (nat \<times> ('q, 'a) instr) option"
where
  "scanWire op optimized [] = Inr None"
| "scanWire op optimized (checkIdx # earlier) =
     (case slotAt optimized checkIdx of
        None \<Rightarrow> scanWire op optimized earlier
      | Some candidate \<Rightarrow>
          if gate candidate = gate op \<and> areQubitsEqual (qubit candidate) (qubit op)
          then Inr (Some (checkIdx, candidate))
          else
            (case canCommute op candidate of
               Inl e \<Rightarrow> Inl e
             | Inr True \<Rightarrow> scanWire op optimized earlier
             | Inr False \<Rightarrow> Inr None))"

definition wireOf :: "'q wires \<Rightarrow> 'q option \<Rightarrow> nat list" where
  "wireOf wireMap q = (case wireMap q of None \<Rightarrow> [] | Some w \<Rightarrow> w)"

definition findCommutingPartner ::
  "('q, 'a) instr \<Rightarrow> 'q wires \<Rightarrow> ('q, 'a) instr option list \<Rightarrow>
   'q error + (nat \<times> ('q, 'a) instr) option"
where
  "findCommutingPartner op wireMap optimized =
     (let qubits = qubitsOf (qubit op) in
      if length qubits \<noteq> 1 then Inr None
      else scanWire op optimized (rev (wireOf wireMap (hd qubits))))"

text \<open>
  \<^verbatim>\<open>Optimizer.#removeFromWires\<close>: \<^verbatim>\<open>splice\<close> removes the first occurrence of the slot;
  a qubit with no wire is a TypeError (\<^verbatim>\<open>wire.indexOf\<close> of \<^verbatim>\<open>undefined\<close>).
\<close>

fun removeFromWiresLoop :: "nat \<Rightarrow> 'q option list \<Rightarrow> 'q wires \<Rightarrow> 'q error + 'q wires" where
  "removeFromWiresLoop idx [] wireMap = Inr wireMap"
| "removeFromWiresLoop idx (q # qs) wireMap =
     (case wireMap q of
        None \<Rightarrow> Inl TypeError
      | Some wire \<Rightarrow> removeFromWiresLoop idx qs (wireMap(q \<mapsto> remove1 idx wire)))"

definition removeFromWires :: "nat \<Rightarrow> ('q, 'a) instr \<Rightarrow> 'q wires \<Rightarrow> 'q error + 'q wires" where
  "removeFromWires idx op wireMap = removeFromWiresLoop idx (qubitsOf (qubit op)) wireMap"

text \<open>\<^verbatim>\<open>partner.params[0] = v\<close>: the assignment extends an empty array.\<close>

definition setParam0 :: "'a \<Rightarrow> 'a list \<Rightarrow> 'a list" where
  "setParam0 v ps = (case ps of [] \<Rightarrow> [v] | p # rest \<Rightarrow> v # rest)"

definition setGate :: "string \<Rightarrow> ('q, 'a) instr \<Rightarrow> ('q, 'a) instr" where
  "setGate g op = Instr g (qubit op) (params op) (condition op) (body op) (timestamp op)"

definition setParams :: "'a list \<Rightarrow> ('q, 'a) instr \<Rightarrow> ('q, 'a) instr" where
  "setParams ps op = Instr (gate op) (qubit op) ps (condition op) (body op) (timestamp op)"

text \<open>\<^verbatim>\<open>Optimizer.#mergeGates\<close>, called for RX, RY and RZ only.\<close>

definition mergeGates ::
  "'a arith \<Rightarrow> nat \<Rightarrow> ('q, 'a) instr \<Rightarrow> ('q, 'a) instr \<Rightarrow>
   'q wires \<times> ('q, 'a) instr option list \<Rightarrow>
   'q error + 'q wires \<times> ('q, 'a) instr option list"
where
  "mergeGates A partnerIdx partner op st =
     (let wireMap = fst st; optimized = snd st;
          partner' =
            (if gate op \<in> {''RX'', ''RY'', ''RZ''} then
               setParams
                 (setParam0
                    (frem A (fadd A (param0 A (params partner)) (param0 A (params op)))
                       (twoPi A))
                    (params partner))
                 partner
             else partner);
          optimized' = optimized[partnerIdx := Some partner']
      in
      if isIdentity A partner' then
        (case removeFromWires partnerIdx partner' wireMap of
           Inl e \<Rightarrow> Inl e
         | Inr wireMap' \<Rightarrow> Inr (wireMap', optimized'[partnerIdx := None]))
      else Inr (wireMap, optimized'))"

text \<open>The tail of the loop body of \<^verbatim>\<open>Optimizer.prune\<close>: push the instruction, record its wires.\<close>

definition pushOp ::
  "('q, 'a) instr \<Rightarrow> 'q wires \<times> ('q, 'a) instr option list \<Rightarrow>
   'q wires \<times> ('q, 'a) instr option list"
where
  "pushOp op st =
     (let wireMap = fst st; optimized = snd st; newIdx = length optimized in
      (fold (\<lambda>q wm. wm(q \<mapsto> wireOf wm q @ [newIdx])) (qubitsOf (qubit op)) wireMap,
       optimized @ [Some op]))"

definition selfInverses :: "string list" where
  "selfInverses = [''H'', ''X'', ''Y'', ''Z'', ''CNOT'', ''CZ'', ''SWAP'']"

text \<open>One iteration of the loop of \<^verbatim>\<open>Optimizer.prune\<close>.\<close>

definition pruneStep ::
  "'a arith \<Rightarrow> ('q, 'a) instr \<Rightarrow> 'q wires \<times> ('q, 'a) instr option list \<Rightarrow>
   'q error + 'q wires \<times> ('q, 'a) instr option list"
where
  "pruneStep A op st =
     (if isIdentity A op then Inr st
      else
        (case findCommutingPartner op (fst st) (snd st) of
           Inl e \<Rightarrow> Inl e
         | Inr None \<Rightarrow> Inr (pushOp op st)
         | Inr (Some (partnerIdx, partner)) \<Rightarrow>
             if gate op \<in> {''RX'', ''RY'', ''RZ''} then mergeGates A partnerIdx partner op st
             else if gate op = ''S'' \<and> gate partner = ''S'' then
               Inr (fst st, (snd st)[partnerIdx := Some (setGate ''Z'' partner)])
             else if gate op = ''T'' \<and> gate partner = ''T'' then
               Inr (fst st, (snd st)[partnerIdx := Some (setGate ''S'' partner)])
             else if gate op = gate partner \<and> gate op \<in> set selfInverses then
               (case removeFromWires partnerIdx partner (fst st) of
                  Inl e \<Rightarrow> Inl e
                | Inr wireMap' \<Rightarrow> Inr (wireMap', (snd st)[partnerIdx := None]))
             else Inr (pushOp op st)))"

fun pruneLoop ::
  "'a arith \<Rightarrow> ('q, 'a) instr list \<Rightarrow> 'q wires \<times> ('q, 'a) instr option list \<Rightarrow>
   'q error + 'q wires \<times> ('q, 'a) instr option list"
where
  "pruneLoop A [] st = Inr st"
| "pruneLoop A (op # rest) st =
     (case pruneStep A op st of Inl e \<Rightarrow> Inl e | Inr st' \<Rightarrow> pruneLoop A rest st')"

text \<open>\<^verbatim>\<open>optimized.filter((op) => op !== null && !this.#isIdentity(op))\<close>.\<close>

fun keepLive :: "'a arith \<Rightarrow> ('q, 'a) instr option list \<Rightarrow> ('q, 'a) instr list" where
  "keepLive A [] = []"
| "keepLive A (None # rest) = keepLive A rest"
| "keepLive A (Some op # rest) =
     (if isIdentity A op then keepLive A rest else op # keepLive A rest)"

text \<open>\<^verbatim>\<open>Optimizer.prune\<close>.\<close>

definition Optimizer_prune ::
  "'a arith \<Rightarrow> ('q, 'a) instr list \<Rightarrow> 'q error + ('q, 'a) instr list"
where
  "Optimizer_prune A instructions =
     (case pruneLoop A instructions (Map.empty, []) of
        Inl e \<Rightarrow> Inl e
      | Inr st \<Rightarrow> Inr (keepLive A (snd st)))"

section \<open>Compiler\<close>

text \<open>\<^verbatim>\<open>Compiler.compile\<close>: prune, transpile, prune.\<close>

definition compile :: "'a arith \<Rightarrow> ('q, 'a) instr list \<Rightarrow> 'q error + ('q, 'a) instr list" where
  "compile A instructions =
     (case Optimizer_prune A instructions of
        Inl e \<Rightarrow> Inl e
      | Inr processed \<Rightarrow>
          (case transpile A processed of
             Inl e \<Rightarrow> Inl e
           | Inr native \<Rightarrow> Optimizer_prune A native))"

section \<open>Circuit, qubit manager and operation recorder\<close>

text \<open>
  \<^verbatim>\<open>Circuit\<close>: the buffer \<^verbatim>\<open>#ops\<close> is the list itself. \<^verbatim>\<open>addOp\<close> stamps the instruction
  with \<^verbatim>\<open>Date.now()\<close>, the parameter \<open>now\<close>.
\<close>

type_synonym ('q, 'a) circuit = "('q, 'a) instr list"

definition addOp ::
  "string \<Rightarrow> 'q qref \<Rightarrow> 'a list \<Rightarrow> ('q \<times> nat) option \<Rightarrow> ('q, 'a) instr list option \<Rightarrow>
   nat \<Rightarrow> ('q, 'a) circuit \<Rightarrow> ('q, 'a) circuit"
where
  "addOp g q ps cond bdy now circuit = circuit @ [Instr g q ps cond bdy (Some now)]"

definition clear :: "('q, 'a) circuit \<Rightarrow> ('q, 'a) circuit" where
  "clear circuit = []"

definition getInstructions :: "('q, 'a) circuit \<Rightarrow> ('q, 'a) instr list" where
  "getInstructions circuit = circuit"

text \<open>
  \<^verbatim>\<open>QubitManager\<close>: the registry is a set of handles. \<^verbatim>\<open>allocate\<close> mints a Symbol, which
  the caller of the model supplies. \<^verbatim>\<open>release\<close> calls the \<^verbatim>\<open>isZero\<close> method of whatever
  simulator object it is given: the method is the parameter, and what it throws is an
  exception from outside (\<open>External\<close>).
\<close>

datatype ('q, 'x) thrown = Own "'q error" | External 'x

definition allocate :: "'q \<Rightarrow> 'q set \<Rightarrow> 'q \<times> 'q set" where
  "allocate fresh registry = (fresh, insert fresh registry)"

definition isAllocated :: "'q set \<Rightarrow> 'q \<Rightarrow> bool" where
  "isAllocated registry q = (q \<in> registry)"

definition release ::
  "('q \<Rightarrow> 'x + bool) \<Rightarrow> 'q \<Rightarrow> 'q set \<Rightarrow> ('q, 'x) thrown option \<times> 'q set"
where
  "release simIsZero h registry =
     (case simIsZero h of
        Inl x \<Rightarrow> (Some (External x), registry)
      | Inr z \<Rightarrow>
          if \<not> z then (Some (Own (FatalMustReset h)), registry)
          else (None, registry - {h}))"

text \<open>
  \<^verbatim>\<open>createOperations\<close>. Each operation takes the registry of the manager and the buffer
  of the circuit it is bound to, and returns what it throws (if it throws) with the
  buffer it leaves.
\<close>

definition validate :: "'q set \<Rightarrow> 'q \<Rightarrow> 'q error option" where
  "validate registry q =
     (if \<not> isAllocated registry q then Some (UsageNotAllocated q) else None)"

text \<open>The shape shared by h, x, y, z, s, t, rx, ry, rz, u3 and reset.\<close>

definition ops_single ::
  "string \<Rightarrow> 'a list \<Rightarrow> 'q set \<Rightarrow> nat \<Rightarrow> 'q \<Rightarrow> ('q, 'a) circuit \<Rightarrow>
   ('q, 'x) thrown option \<times> ('q, 'a) circuit"
where
  "ops_single g ps registry now q circuit =
     (case validate registry q of
        Some e \<Rightarrow> (Some (Own e), circuit)
      | None \<Rightarrow> (None, addOp g (Single q) ps None None now circuit))"

definition ops_h where "ops_h = ops_single ''H'' []"
definition ops_x where "ops_x = ops_single ''X'' []"
definition ops_y where "ops_y = ops_single ''Y'' []"
definition ops_z where "ops_z = ops_single ''Z'' []"
definition ops_s where "ops_s = ops_single ''S'' []"
definition ops_t where "ops_t = ops_single ''T'' []"
definition ops_rx where "ops_rx theta = ops_single ''RX'' [theta]"
definition ops_ry where "ops_ry theta = ops_single ''RY'' [theta]"
definition ops_rz where "ops_rz theta = ops_single ''RZ'' [theta]"
definition ops_u3 where "ops_u3 theta phi lam = ops_single ''U3'' [theta, phi, lam]"
definition ops_reset where "ops_reset = ops_single ''RESET'' []"

definition ops_cnot ::
  "'q set \<Rightarrow> nat \<Rightarrow> 'q \<Rightarrow> 'q \<Rightarrow> ('q, 'a) circuit \<Rightarrow> ('q, 'x) thrown option \<times> ('q, 'a) circuit"
where
  "ops_cnot registry now ctrl trgt circuit =
     (case validate registry ctrl of
        Some e \<Rightarrow> (Some (Own e), circuit)
      | None \<Rightarrow>
          (case validate registry trgt of
             Some e \<Rightarrow> (Some (Own e), circuit)
           | None \<Rightarrow>
               if ctrl = trgt then (Some (Own (PhysicsSelfControl ctrl)), circuit)
               else (None, addOp ''CNOT'' (Tuple ctrl trgt []) [] None None now circuit)))"

definition ops_cz ::
  "'q set \<Rightarrow> nat \<Rightarrow> 'q \<Rightarrow> 'q \<Rightarrow> ('q, 'a) circuit \<Rightarrow> ('q, 'x) thrown option \<times> ('q, 'a) circuit"
where
  "ops_cz registry now ctrl trgt circuit =
     (case validate registry ctrl of
        Some e \<Rightarrow> (Some (Own e), circuit)
      | None \<Rightarrow>
          (case validate registry trgt of
             Some e \<Rightarrow> (Some (Own e), circuit)
           | None \<Rightarrow>
               if ctrl = trgt then (Some (Own (PhysicsSelfControl ctrl)), circuit)
               else (None, addOp ''CZ'' (Tuple ctrl trgt []) [] None None now circuit)))"

definition ops_rzz ::
  "'q set \<Rightarrow> nat \<Rightarrow> 'q \<Rightarrow> 'q \<Rightarrow> 'a \<Rightarrow> ('q, 'a) circuit \<Rightarrow>
   ('q, 'x) thrown option \<times> ('q, 'a) circuit"
where
  "ops_rzz registry now q1 q2 theta circuit =
     (case validate registry q1 of
        Some e \<Rightarrow> (Some (Own e), circuit)
      | None \<Rightarrow>
          (case validate registry q2 of
             Some e \<Rightarrow> (Some (Own e), circuit)
           | None \<Rightarrow> (None, addOp ''RZZ'' (Tuple q1 q2 []) [theta] None None now circuit)))"

definition ops_swap ::
  "'q set \<Rightarrow> nat \<Rightarrow> 'q \<Rightarrow> 'q \<Rightarrow> ('q, 'a) circuit \<Rightarrow> ('q, 'x) thrown option \<times> ('q, 'a) circuit"
where
  "ops_swap registry now q1 q2 circuit =
     (case validate registry q1 of
        Some e \<Rightarrow> (Some (Own e), circuit)
      | None \<Rightarrow>
          (case validate registry q2 of
             Some e \<Rightarrow> (Some (Own e), circuit)
           | None \<Rightarrow>
               if q1 = q2 then (Some (Own UsageSelfSwap), circuit)
               else (None, addOp ''SWAP'' (Tuple q1 q2 []) [] None None now circuit)))"

definition ops_ccx ::
  "'q set \<Rightarrow> nat \<Rightarrow> 'q \<Rightarrow> 'q \<Rightarrow> 'q \<Rightarrow> ('q, 'a) circuit \<Rightarrow>
   ('q, 'x) thrown option \<times> ('q, 'a) circuit"
where
  "ops_ccx registry now c1 c2 t circuit =
     (case validate registry c1 of
        Some e \<Rightarrow> (Some (Own e), circuit)
      | None \<Rightarrow>
          (case validate registry c2 of
             Some e \<Rightarrow> (Some (Own e), circuit)
           | None \<Rightarrow>
               (case validate registry t of
                  Some e \<Rightarrow> (Some (Own e), circuit)
                | None \<Rightarrow> (None, addOp ''CCX'' (Tuple c1 c2 [t]) [] None None now circuit))))"

text \<open>
  \<^verbatim>\<open>if\<close> and \<^verbatim>\<open>while\<close> run the user's callback on a recorder bound to a fresh circuit.
  The callback is arbitrary code: it is modelled by what it does, given the buffer of the
  enclosing circuit: it throws or returns, leaving the contents of the fresh circuit
  and a buffer of the enclosing circuit (which a callback that closes over the
  enclosing recorder, or a flush, can change).
\<close>

definition ops_block ::
  "string \<Rightarrow> 'q set \<Rightarrow> nat \<Rightarrow> 'q \<Rightarrow> nat \<Rightarrow>
   (('q, 'a) circuit \<Rightarrow> ('x + ('q, 'a) circuit) \<times> ('q, 'a) circuit) \<Rightarrow> ('q, 'a) circuit \<Rightarrow>
   ('q, 'x) thrown option \<times> ('q, 'a) circuit"
where
  "ops_block g registry now q v callback circuit =
     (case validate registry q of
        Some e \<Rightarrow> (Some (Own e), circuit)
      | None \<Rightarrow>
          (case callback circuit of
             (Inl x, circuit') \<Rightarrow> (Some (External x), circuit')
           | (Inr subCircuit, circuit') \<Rightarrow>
               (None, addOp g NoQubit [] (Some (q, v)) (Some (getInstructions subCircuit)) now
                        circuit')))"

definition ops_if where "ops_if = ops_block ''IF''"
definition ops_while where "ops_while = ops_block ''WHILE''"

text \<open>
  \<^verbatim>\<open>m\<close> appends the MEASURE and then calls the flush hook, an arbitrary function given to
  \<^verbatim>\<open>createOperations\<close>: it throws or returns a value, and leaves a buffer.
\<close>

definition ops_m ::
  "'q set \<Rightarrow> nat \<Rightarrow> ('q \<Rightarrow> ('q, 'a) circuit \<Rightarrow> ('x + 'r) \<times> ('q, 'a) circuit) \<Rightarrow> 'q \<Rightarrow>
   ('q, 'a) circuit \<Rightarrow> (('q, 'x) thrown + 'r) \<times> ('q, 'a) circuit"
where
  "ops_m registry now onFlush q circuit =
     (case validate registry q of
        Some e \<Rightarrow> (Inl (Own e), circuit)
      | None \<Rightarrow>
          (case onFlush q (addOp ''MEASURE'' (Single q) [] None None now circuit) of
             (Inl x, circuit') \<Rightarrow> (Inl (External x), circuit')
           | (Inr r, circuit') \<Rightarrow> (Inr r, circuit')))"

text \<open>
  A call of one of the operations that return nothing, for statements about all of them.
\<close>

datatype ('q, 'a, 'x) call =
    CallH 'q | CallX 'q | CallY 'q | CallZ 'q | CallS 'q | CallT 'q
  | CallRX 'q 'a | CallRY 'q 'a | CallRZ 'q 'a | CallU3 'q 'a 'a 'a
  | CallCNOT 'q 'q | CallCZ 'q 'q | CallRZZ 'q 'q 'a | CallSWAP 'q 'q | CallCCX 'q 'q 'q
  | CallRESET 'q
  | CallIF 'q nat "('q, 'a) circuit \<Rightarrow> ('x + ('q, 'a) circuit) \<times> ('q, 'a) circuit"
  | CallWHILE 'q nat "('q, 'a) circuit \<Rightarrow> ('x + ('q, 'a) circuit) \<times> ('q, 'a) circuit"

fun invoke ::
  "'q set \<Rightarrow> nat \<Rightarrow> ('q, 'a, 'x) call \<Rightarrow> ('q, 'a) circuit \<Rightarrow>
   ('q, 'x) thrown option \<times> ('q, 'a) circuit"
where
  "invoke registry now (CallH q) = ops_h registry now q"
| "invoke registry now (CallX q) = ops_x registry now q"
| "invoke registry now (CallY q) = ops_y registry now q"
| "invoke registry now (CallZ q) = ops_z registry now q"
| "invoke registry now (CallS q) = ops_s registry now q"
| "invoke registry now (CallT q) = ops_t registry now q"
| "invoke registry now (CallRX q theta) = ops_rx theta registry now q"
| "invoke registry now (CallRY q theta) = ops_ry theta registry now q"
| "invoke registry now (CallRZ q theta) = ops_rz theta registry now q"
| "invoke registry now (CallU3 q theta phi lam) = ops_u3 theta phi lam registry now q"
| "invoke registry now (CallCNOT c t) = ops_cnot registry now c t"
| "invoke registry now (CallCZ c t) = ops_cz registry now c t"
| "invoke registry now (CallRZZ a b theta) = ops_rzz registry now a b theta"
| "invoke registry now (CallSWAP a b) = ops_swap registry now a b"
| "invoke registry now (CallCCX a b c) = ops_ccx registry now a b c"
| "invoke registry now (CallRESET q) = ops_reset registry now q"
| "invoke registry now (CallIF q v cb) = ops_if registry now q v cb"
| "invoke registry now (CallWHILE q v cb) = ops_while registry now q v cb"

section \<open>Gate matrix catalog\<close>

text \<open>
  \<^verbatim>\<open>GATES[gateName]\<close>, applied to \<^verbatim>\<open>...params\<close> when it is a function: the value the
  gate functions hold in \<^verbatim>\<open>matrix\<close> before their loop. For a name of the catalog it is a
  flat row-major array of interleaved (re, im) pairs. A parameter that is not passed is
  \<^verbatim>\<open>undefined\<close>.

  \<^verbatim>\<open>GATES\<close> is an object literal, so the lookup also finds the twelve properties it
  inherits from \<^verbatim>\<open>Object.prototype\<close>. The functions among them are called with the
  parameters (numbers) and no receiver:
  \<^item> \<^verbatim>\<open>toString\<close> returns the string \<^verbatim>\<open>[object Undefined]\<close>, whose 18 characters read as
    numbers are NaN, but for the blank at position 7, which is 0;
  \<^item> \<^verbatim>\<open>constructor\<close> returns a fresh object or a wrapped number, \<^verbatim>\<open>isPrototypeOf\<close> returns
    \<^verbatim>\<open>false\<close>, and \<^verbatim>\<open>__proto__\<close> is the prototype object itself: values with no
    element at any position;
  \<^item> \<^verbatim>\<open>hasOwnProperty\<close>, \<^verbatim>\<open>valueOf\<close>, \<^verbatim>\<open>toLocaleString\<close>, \<^verbatim>\<open>propertyIsEnumerable\<close> and the
    four \<^verbatim>\<open>__defineGetter__\<close>, \<^verbatim>\<open>__defineSetter__\<close>, \<^verbatim>\<open>__lookupGetter__\<close>,
    \<^verbatim>\<open>__lookupSetter__\<close> throw a TypeError for want of a receiver.

  \<open>Entries m\<close> is a value whose element \<open>k\<close>, read as a number, is \<open>m ! k\<close> below the
  length of \<open>m\<close> and NaN from there on; \<open>Undefined\<close> is the lookup of any other name,
  and reading an element of it throws; \<open>Throws\<close> is a call that throws.
\<close>

datatype 'a looked = Undefined | Entries "'a list" | Throws

definition INV_SQRT2 :: "'a arith \<Rightarrow> 'a" where
  "INV_SQRT2 A = fdiv A (fnum A 1) (fsqrt A (fnum A 2))"

definition argAt :: "'a arith \<Rightarrow> 'a list \<Rightarrow> nat \<Rightarrow> 'a" where
  "argAt A ps k = (if k < length ps then ps ! k else fnan A)"

definition GATES :: "'a arith \<Rightarrow> string \<Rightarrow> 'a list \<Rightarrow> 'a looked" where
  "GATES A name ps =
     (let z = fnum A 0; i = fnum A 1; m = fnum A (- 1); h = INV_SQRT2 A in
      if name = ''H'' then Entries [h, z, h, z, h, z, fneg A h, z]
      else if name = ''X'' then Entries [z, z, i, z, i, z, z, z]
      else if name = ''Y'' then Entries [z, z, z, m, z, i, z, z]
      else if name = ''Z'' then Entries [i, z, z, z, z, z, m, z]
      else if name = ''RX'' then
        (let c = fcos A (fdiv A (argAt A ps 0) (fnum A 2));
             s = fneg A (fsin A (fdiv A (argAt A ps 0) (fnum A 2)))
         in Entries [c, z, z, s, z, s, c, z])
      else if name = ''RY'' then
        (let c = fcos A (fdiv A (argAt A ps 0) (fnum A 2));
             s = fsin A (fdiv A (argAt A ps 0) (fnum A 2))
         in Entries [c, z, fneg A s, z, s, z, c, z])
      else if name = ''RZ'' then
        (let c = fcos A (fdiv A (argAt A ps 0) (fnum A 2));
             s = fsin A (fdiv A (argAt A ps 0) (fnum A 2))
         in Entries [c, fneg A s, z, z, z, z, c, s])
      else if name = ''U3'' then
        (let theta = argAt A ps 0; phi = argAt A ps 1; lam = argAt A ps 2;
             c = fcos A (fdiv A theta (fnum A 2));
             s = fsin A (fdiv A theta (fnum A 2))
         in Entries [c, z,
                  fmul A (fneg A s) (fcos A lam), fmul A (fneg A s) (fsin A lam),
                  fmul A s (fcos A phi), fmul A s (fsin A phi),
                  fmul A c (fcos A (fadd A phi lam)), fmul A c (fsin A (fadd A phi lam))])
      else if name = ''CNOT'' then
        Entries [i, z, z, z, z, z, z, z,
              z, z, i, z, z, z, z, z,
              z, z, z, z, z, z, i, z,
              z, z, z, z, i, z, z, z]
      else if name = ''CZ'' then
        Entries [i, z, z, z, z, z, z, z,
              z, z, i, z, z, z, z, z,
              z, z, z, z, i, z, z, z,
              z, z, z, z, z, z, m, z]
      else if name = ''SWAP'' then
        Entries [i, z, z, z, z, z, z, z,
              z, z, z, z, i, z, z, z,
              z, z, i, z, z, z, z, z,
              z, z, z, z, z, z, i, z]
      else if name = ''S'' then Entries [i, z, z, z, z, z, z, i]
      else if name = ''T'' then
        Entries [i, z, z, z,
              z, z, fcos A (fdiv A (fpi A) (fnum A 4)), fsin A (fdiv A (fpi A) (fnum A 4))]
      else if name = ''RZZ'' then
        (let c = fcos A (fdiv A (argAt A ps 0) (fnum A 2));
             s = fsin A (fdiv A (argAt A ps 0) (fnum A 2))
         in Entries [c, fneg A s, z, z, z, z, z, z,
                  z, z, c, s, z, z, z, z,
                  z, z, z, z, c, s, z, z,
                  z, z, z, z, z, z, c, fneg A s])
      else if name = ''CCX'' then
        Entries [i,z,z,z,z,z,z,z,z,z,z,z,z,z,z,z,
              z,z,i,z,z,z,z,z,z,z,z,z,z,z,z,z,
              z,z,z,z,i,z,z,z,z,z,z,z,z,z,z,z,
              z,z,z,z,z,z,i,z,z,z,z,z,z,z,z,z,
              z,z,z,z,z,z,z,z,i,z,z,z,z,z,z,z,
              z,z,z,z,z,z,z,z,z,z,i,z,z,z,z,z,
              z,z,z,z,z,z,z,z,z,z,z,z,z,z,i,z,
              z,z,z,z,z,z,z,z,z,z,z,z,i,z,z,z]
      else if name = ''toString'' then
        (let n = fnan A in
         Entries [n, n, n, n, n, n, n, z, n, n, n, n, n, n, n, n, n, n])
      else if name \<in> {''constructor'', ''isPrototypeOf'', ''__proto__''} then Entries []
      else if name \<in> {''hasOwnProperty'', ''valueOf'', ''toLocaleString'',
                       ''propertyIsEnumerable'', ''__defineGetter__'', ''__defineSetter__'',
                       ''__lookupGetter__'', ''__lookupSetter__''} then Throws
      else Undefined)"

section \<open>Sparse simulator\<close>

text \<open>
  The state of a \<^verbatim>\<open>Simulator\<close>. A typed array is zero-filled when it is made and every
  access of the source lies below its length (\<^verbatim>\<open>#ensureCapacity\<close> runs before each
  scatter with the largest count the scatter can reach, and the other loops stay below
  \<^verbatim>\<open>#activeCount\<close>): a buffer is the function from a slot to its content, with the
  length kept in \<open>capacity\<close>. A basis index is a 64-bit word; read from the
  \<^verbatim>\<open>BigUint64Array\<close> it is a BigInt, an unbounded \<open>int\<close>, and a store truncates to 64
  bits. \<^verbatim>\<open>#amplitudes\<close> is interleaved: slot \<open>i\<close> has its real part at \<open>2 * i\<close> and its
  imaginary part at \<open>2 * i + 1\<close>.

  \<open>draws\<close> counts the calls of \<^verbatim>\<open>Math.random()\<close> so far: the \<open>k\<close>-th call returns
  \<open>rnd k\<close>, for the sequence of draws \<open>rnd\<close> that every stochastic function takes.
\<close>

record 'a noise =
  gateError :: 'a
  readoutError :: 'a
  t1 :: 'a
  t2 :: 'a

record ('q, 'a) sim =
  indices :: "nat \<Rightarrow> 64 word"
  amplitudes :: "nat \<Rightarrow> 'a"
  indicesAux :: "nat \<Rightarrow> 64 word"
  amplitudesAux :: "nat \<Rightarrow> 'a"
  capacity :: nat
  activeCount :: nat
  qubitMap :: "'q \<rightharpoonup> nat"
  noiseModel :: "'a noise option"
  epsilon :: "'a option"
  results :: "'q \<rightharpoonup> nat"
  draws :: nat

definition memoryBudget :: nat where
  "memoryBudget = 5000"

text \<open>
  The constructor. \<^verbatim>\<open>new Map(qubits.map((q, i) => [q, i]))\<close> keeps the last position of
  a handle that stands twice; \<^verbatim>\<open>options.epsilon || null\<close> keeps a truthy override only.
\<close>

definition Simulator ::
  "'a arith \<Rightarrow> 'q list \<Rightarrow> 'a noise option \<Rightarrow> 'a option \<Rightarrow> ('q, 'a) sim"
where
  "Simulator A qubits noise optionsEpsilon =
     \<lparr> indices = (\<lambda>k. 0),
       amplitudes = (\<lambda>k. fnum A 0)(0 := fnum A 1, 1 := fnum A 0),
       indicesAux = (\<lambda>k. 0),
       amplitudesAux = (\<lambda>k. fnum A 0),
       capacity = memoryBudget * 2,
       activeCount = 1,
       qubitMap = map_of (rev (zip qubits [0..<length qubits])),
       noiseModel = noise,
       epsilon = (case optionsEpsilon of
                    None \<Rightarrow> None
                  | Some e \<Rightarrow> if ftruthy A e then Some e else None),
       results = Map.empty,
       draws = 0 \<rparr>"

definition ensureCapacity :: "'a arith \<Rightarrow> nat \<Rightarrow> ('q, 'a) sim \<Rightarrow> ('q, 'a) sim" where
  "ensureCapacity A required s =
     (if capacity s < required then
        s\<lparr> capacity := max (capacity s * 2) required,
           indicesAux := (\<lambda>k. 0),
           amplitudesAux := (\<lambda>k. fnum A 0) \<rparr>
      else s)"

definition swapBuffers :: "('q, 'a) sim \<Rightarrow> ('q, 'a) sim" where
  "swapBuffers s =
     s\<lparr> indices := indicesAux s, indicesAux := indices s,
        amplitudes := amplitudesAux s, amplitudesAux := amplitudes s \<rparr>"

text \<open>\<^verbatim>\<open>1n << BigInt(this.#qubitMap.get(q))\<close>: a TypeError for a handle that is not in the map.\<close>

definition bitOf :: "('q, 'a) sim \<Rightarrow> 'q \<Rightarrow> int option" where
  "bitOf s q = (case qubitMap s q of None \<Rightarrow> None | Some pos \<Rightarrow> Some (push_bit pos 1))"

definition currentPruneThreshold :: "'a arith \<Rightarrow> ('q, 'a) sim \<Rightarrow> 'a" where
  "currentPruneThreshold A s =
     fmul A (f1e_15 A)
       (fmax A (fnum A 1) (fdiv A (fnum A (int (activeCount s))) (fnum A (int memoryBudget))))"

definition getEffectiveEpsilon :: "'a arith \<Rightarrow> ('q, 'a) sim \<Rightarrow> 'a" where
  "getEffectiveEpsilon A s =
     (case epsilon s of
        Some e \<Rightarrow> e
      | None \<Rightarrow> fmul A (currentPruneThreshold A s) (fnum A 100))"

definition sqMagnitude :: "'a arith \<Rightarrow> (nat \<Rightarrow> 'a) \<Rightarrow> nat \<Rightarrow> 'a" where
  "sqMagnitude A amps k = fadd A (fpow2 A (amps (k * 2))) (fpow2 A (amps (k * 2 + 1)))"

definition bitSet :: "64 word \<Rightarrow> int \<Rightarrow> bool" where
  "bitSet w b = (uint w AND b \<noteq> 0)"

definition getProb1 :: "'a arith \<Rightarrow> 'q \<Rightarrow> ('q, 'a) sim \<Rightarrow> 'q error + 'a" where
  "getProb1 A q s =
     (case bitOf s q of
        None \<Rightarrow> Inl TypeError
      | Some target \<Rightarrow>
          Inr (fold (\<lambda>k prob1.
                       if bitSet (indices s k) target
                       then fadd A prob1 (sqMagnitude A (amplitudes s) k)
                       else prob1)
                 [0..<activeCount s] (fnum A 0)))"

definition isZero :: "'a arith \<Rightarrow> 'q \<Rightarrow> ('q, 'a) sim \<Rightarrow> 'q error + bool" where
  "isZero A q s =
     (case getProb1 A q s of
        Inl e \<Rightarrow> Inl e
      | Inr prob1 \<Rightarrow> Inr (flt A prob1 (getEffectiveEpsilon A s)))"

definition getResult :: "('q, 'a) sim \<Rightarrow> 'q \<Rightarrow> nat option" where
  "getResult s q = results s q"

text \<open>
  The in-place compaction loops of \<^verbatim>\<open>#prune\<close> and \<^verbatim>\<open>#collapse\<close> carry the two primary
  buffers and \<^verbatim>\<open>writeIdx\<close>.
\<close>

record 'a compaction =
  cIdx :: "nat \<Rightarrow> 64 word"
  cAmp :: "nat \<Rightarrow> 'a"
  writeIdx :: nat

definition pruneEntry :: "'a arith \<Rightarrow> 'a \<Rightarrow> nat \<Rightarrow> 'a compaction \<Rightarrow> 'a compaction" where
  "pruneEntry A threshold k c =
     (if fle A threshold (sqMagnitude A (cAmp c) k) then
        (if writeIdx c \<noteq> k then
           c\<lparr> cIdx := (cIdx c)(writeIdx c := cIdx c k),
              cAmp := (cAmp c)(writeIdx c * 2 := cAmp c (k * 2),
                               writeIdx c * 2 + 1 := cAmp c (k * 2 + 1)),
              writeIdx := writeIdx c + 1 \<rparr>
         else c\<lparr> writeIdx := writeIdx c + 1 \<rparr>)
      else c)"

definition sim_prune :: "'a arith \<Rightarrow> ('q, 'a) sim \<Rightarrow> ('q, 'a) sim" where
  "sim_prune A s =
     (let c = fold (pruneEntry A (currentPruneThreshold A s)) [0..<activeCount s]
                \<lparr> cIdx = indices s, cAmp = amplitudes s, writeIdx = 0 \<rparr>
      in s\<lparr> indices := cIdx c, amplitudes := cAmp c, activeCount := writeIdx c \<rparr>)"

definition collapseEntry ::
  "'a arith \<Rightarrow> int \<Rightarrow> nat \<Rightarrow> 'a \<Rightarrow> nat \<Rightarrow> 'a compaction \<Rightarrow> 'a compaction"
where
  "collapseEntry A target result nrm k c =
     (let isBitSet = bitSet (cIdx c k) target in
      if (result = 1 \<and> isBitSet) \<or> (result = 0 \<and> \<not> isBitSet) then
        c\<lparr> cIdx := (cIdx c)(writeIdx c := cIdx c k),
           cAmp := (cAmp c)(writeIdx c * 2 := fdiv A (cAmp c (k * 2)) nrm,
                            writeIdx c * 2 + 1 := fdiv A (cAmp c (k * 2 + 1)) nrm),
           writeIdx := writeIdx c + 1 \<rparr>
      else c)"

definition collapse ::
  "'a arith \<Rightarrow> 'q \<Rightarrow> nat \<Rightarrow> 'a \<Rightarrow> ('q, 'a) sim \<Rightarrow> 'q error + ('q, 'a) sim"
where
  "collapse A q result prob1 s =
     (case bitOf s q of
        None \<Rightarrow> Inl TypeError
      | Some target \<Rightarrow>
          (let nrm = (if result = 1 then fsqrt A prob1
                       else fsqrt A (fsub A (fnum A 1) prob1));
               c = fold (collapseEntry A target result nrm) [0..<activeCount s]
                     \<lparr> cIdx = indices s, cAmp = amplitudes s, writeIdx = 0 \<rparr>
           in Inr (s\<lparr> indices := cIdx c, amplitudes := cAmp c, activeCount := writeIdx c \<rparr>)))"

text \<open>\<^verbatim>\<open>measure\<close>: the readout draw is made only with a noise model (\<^verbatim>\<open>&&\<close> short-circuits).\<close>

definition measure_qubit ::
  "'a arith \<Rightarrow> (nat \<Rightarrow> 'a) \<Rightarrow> 'q \<Rightarrow> ('q, 'a) sim \<Rightarrow> 'q error + nat \<times> ('q, 'a) sim"
where
  "measure_qubit A rnd q s =
     (case getProb1 A q s of
        Inl e \<Rightarrow> Inl e
      | Inr p \<Rightarrow>
          (let (prob1, s1) =
                 (case noiseModel s of
                    None \<Rightarrow> (p, s)
                  | Some nm \<Rightarrow>
                      (if flt A (rnd (draws s)) (readoutError nm)
                       then fsub A (fnum A 1) p else p,
                       s\<lparr> draws := draws s + 1 \<rparr>));
               result = (if flt A (rnd (draws s1)) prob1 then 1 else 0);
               s2 = s1\<lparr> draws := draws s1 + 1 \<rparr>
           in case collapse A q result prob1 s2 of
                Inl e \<Rightarrow> Inl e
              | Inr s3 \<Rightarrow> Inr (result, s3)))"

subsection \<open>Scatter\<close>

text \<open>
  The state of one gate step: the scratch buffers the scatter writes, the collision map
  (keyed on the BigInt index) and \<^verbatim>\<open>nextCount\<close>.
\<close>

record 'a scatter =
  dIdx :: "nat \<Rightarrow> 64 word"
  dAmp :: "nat \<Rightarrow> 'a"
  collisionMap :: "int \<rightharpoonup> nat"
  nextCount :: nat

definition updateState ::
  "'a arith \<Rightarrow> (nat \<Rightarrow> 'a) \<Rightarrow> nat \<Rightarrow> 'a \<Rightarrow> 'a \<Rightarrow> 'a \<Rightarrow> 'a \<Rightarrow> (nat \<Rightarrow> 'a)"
where
  "updateState A buffer bIdx re im gRe gIm =
     (let b1 = buffer(bIdx := fadd A (buffer bIdx) (fsub A (fmul A re gRe) (fmul A im gIm)))
      in b1(bIdx + 1 := fadd A (b1 (bIdx + 1)) (fadd A (fmul A re gIm) (fmul A im gRe))))"

text \<open>
  \<^verbatim>\<open>#accumulate\<close>, called with \<^verbatim>\<open>nextCount++\<close> for \<open>count\<close>: the caller's counter advances
  whether or not the index was already in the map.
\<close>

definition accumulate ::
  "'a arith \<Rightarrow> int \<Rightarrow> 'a \<Rightarrow> 'a \<Rightarrow> 'a scatter \<Rightarrow> 'a scatter"
where
  "accumulate A idx re im st =
     (let count = nextCount st;
          st0 = st\<lparr> nextCount := nextCount st + 1 \<rparr>;
          (bPos, st1) =
            (case collisionMap st0 idx of
               Some b \<Rightarrow> (b, st0)
             | None \<Rightarrow>
                 (count,
                  st0\<lparr> collisionMap := (collisionMap st0)(idx \<mapsto> count),
                       dIdx := (dIdx st0)(count := word_of_int idx),
                       dAmp := (dAmp st0)(count * 2 := fnum A 0, count * 2 + 1 := fnum A 0) \<rparr>))
      in st1\<lparr> dAmp := (dAmp st1)(bPos * 2 := fadd A (dAmp st1 (bPos * 2)) re,
                                   bPos * 2 + 1 := fadd A (dAmp st1 (bPos * 2 + 1)) im) \<rparr>)"

text \<open>
  The block the three gate functions repeat for each target row: find or make the slot
  of \<open>tIdx\<close>, then \<^verbatim>\<open>#updateState\<close> with the matrix entry at \<open>gIdx\<close>. An entry beyond the
  matrix is \<^verbatim>\<open>undefined\<close>.
\<close>

definition matrixAt :: "'a arith \<Rightarrow> 'a list \<Rightarrow> nat \<Rightarrow> 'a" where
  "matrixAt A matrix k = (if k < length matrix then matrix ! k else fnan A)"

definition scatterRow ::
  "'a arith \<Rightarrow> 'a list \<Rightarrow> 'a \<Rightarrow> 'a \<Rightarrow> int \<Rightarrow> nat \<Rightarrow> 'a scatter \<Rightarrow> 'a scatter"
where
  "scatterRow A matrix re im tIdx gIdx st =
     (let (bPos, st1) =
            (case collisionMap st tIdx of
               Some b \<Rightarrow> (b, st)
             | None \<Rightarrow>
                 (nextCount st,
                  st\<lparr> nextCount := nextCount st + 1,
                      collisionMap := (collisionMap st)(tIdx \<mapsto> nextCount st),
                      dIdx := (dIdx st)(nextCount st := word_of_int tIdx),
                      dAmp := (dAmp st)(nextCount st * 2 := fnum A 0,
                                        nextCount st * 2 + 1 := fnum A 0) \<rparr>))
      in st1\<lparr> dAmp := updateState A (dAmp st1) (bPos * 2) re im
                          (matrixAt A matrix gIdx) (matrixAt A matrix (gIdx + 1)) \<rparr>)"

text \<open>
  What the three gate functions do around their loop: \<^verbatim>\<open>#ensureCapacity\<close>, a fresh
  collision map, the loop over the active entries, then the new count, the buffer swap
  and \<^verbatim>\<open>#prune\<close>.
\<close>

definition scatterGate ::
  "'a arith \<Rightarrow> nat \<Rightarrow> (64 word \<Rightarrow> 'a \<Rightarrow> 'a \<Rightarrow> 'a scatter \<Rightarrow> 'a scatter) \<Rightarrow>
   ('q, 'a) sim \<Rightarrow> ('q, 'a) sim"
where
  "scatterGate A rows entry s =
     (let s1 = ensureCapacity A (activeCount s * rows) s;
          st = fold (\<lambda>k. entry (indices s1 k) (amplitudes s1 (k * 2)) (amplitudes s1 (k * 2 + 1)))
                 [0..<activeCount s1]
                 \<lparr> dIdx = indicesAux s1, dAmp = amplitudesAux s1,
                   collisionMap = Map.empty, nextCount = 0 \<rparr>;
          s2 = s1\<lparr> indicesAux := dIdx st, amplitudesAux := dAmp st, activeCount := nextCount st \<rparr>
      in sim_prune A (swapBuffers s2))"

text \<open>
  \<^verbatim>\<open>applyGate\<close>. Reading an entry of a matrix that is \<^verbatim>\<open>undefined\<close> throws a TypeError, at
  the first entry the loop scatters through the matrix.
\<close>

definition applyGateEntry ::
  "'a arith \<Rightarrow> string \<Rightarrow> int \<Rightarrow> 'a list \<Rightarrow> 64 word \<Rightarrow> 'a \<Rightarrow> 'a \<Rightarrow> 'a scatter \<Rightarrow> 'a scatter"
where
  "applyGateEntry A gateName targetBit matrix w re im st =
     (let idx = uint w in
      if gateName = ''Z'' then
        (let sign = (if idx AND targetBit \<noteq> 0 then fnum A (- 1) else fnum A 1)
         in accumulate A idx (fmul A re sign) (fmul A im sign) st)
      else
        (let isBitSet = (idx AND targetBit \<noteq> 0);
             base = idx AND NOT targetBit;
             col = (if isBitSet then 1 else 0);
             targets = [base, base OR targetBit]
         in fold (\<lambda>row. scatterRow A matrix re im (targets ! row) ((row * 2 + col) * 2))
              [0..<2] st))"

definition applyGate ::
  "'a arith \<Rightarrow> string \<Rightarrow> 'q \<Rightarrow> 'a list \<Rightarrow> ('q, 'a) sim \<Rightarrow> 'q error + ('q, 'a) sim"
where
  "applyGate A gateName q ps s =
     (case bitOf s q of
        None \<Rightarrow> Inl TypeError
      | Some targetBit \<Rightarrow>
          (case GATES A gateName ps of
             Throws \<Rightarrow> Inl TypeError
           | Undefined \<Rightarrow>
               if gateName = ''Z'' \<or> activeCount s = 0
               then Inr (scatterGate A 2 (applyGateEntry A gateName targetBit []) s)
               else Inl TypeError
           | Entries matrix \<Rightarrow>
               Inr (scatterGate A 2 (applyGateEntry A gateName targetBit matrix) s)))"

definition apply2Entry ::
  "'a arith \<Rightarrow> string \<Rightarrow> int \<Rightarrow> int \<Rightarrow> 'a list \<Rightarrow> 64 word \<Rightarrow> 'a \<Rightarrow> 'a \<Rightarrow> 'a scatter \<Rightarrow>
   'a scatter"
where
  "apply2Entry A gateName bit1 bit2 matrix w re im st =
     (let idx = uint w; mask = bit1 OR bit2 in
      if gateName = ''CZ'' then
        (let sign = (if idx AND mask = mask then fnum A (- 1) else fnum A 1)
         in accumulate A idx (fmul A re sign) (fmul A im sign) st)
      else if gateName = ''CNOT'' \<or> gateName = ''SWAP'' then
        (let nextIdx =
               (if gateName = ''CNOT'' then
                  (if idx AND bit1 \<noteq> 0 then idx XOR bit2 else idx)
                else
                  (if (idx AND bit1 \<noteq> 0) \<noteq> (idx AND bit2 \<noteq> 0) then idx XOR mask else idx))
         in accumulate A nextIdx re im st)
      else
        (let col = (if idx AND bit1 \<noteq> 0 then 2 else 0) OR (if idx AND bit2 \<noteq> 0 then 1 else 0);
             base = idx AND NOT mask;
             offsets = [0, bit2, bit1, mask]
         in fold (\<lambda>row. scatterRow A matrix re im (base OR offsets ! row)
                          ((row * 4 + nat col) * 2))
              [0..<4] st))"

definition apply2QubitGate ::
  "'a arith \<Rightarrow> string \<Rightarrow> 'q \<Rightarrow> 'q \<Rightarrow> 'a list \<Rightarrow> ('q, 'a) sim \<Rightarrow> 'q error + ('q, 'a) sim"
where
  "apply2QubitGate A gateName q1 q2 ps s =
     (case bitOf s q1 of
        None \<Rightarrow> Inl TypeError
      | Some bit1 \<Rightarrow>
          (case bitOf s q2 of
             None \<Rightarrow> Inl TypeError
           | Some bit2 \<Rightarrow>
               (case GATES A gateName ps of
                  Throws \<Rightarrow> Inl TypeError
                | Undefined \<Rightarrow>
                    if gateName \<in> {''CZ'', ''CNOT'', ''SWAP''} \<or> activeCount s = 0
                    then Inr (scatterGate A 4 (apply2Entry A gateName bit1 bit2 []) s)
                    else Inl TypeError
                | Entries matrix \<Rightarrow>
                    Inr (scatterGate A 4 (apply2Entry A gateName bit1 bit2 matrix) s))))"

definition apply3Entry ::
  "'a arith \<Rightarrow> int \<Rightarrow> int \<Rightarrow> int \<Rightarrow> 'a list \<Rightarrow> 64 word \<Rightarrow> 'a \<Rightarrow> 'a \<Rightarrow> 'a scatter \<Rightarrow>
   'a scatter"
where
  "apply3Entry A bit1 bit2 bit3 matrix w re im st =
     (let idx = uint w; mask = bit1 OR bit2 OR bit3;
          col = (if idx AND bit1 \<noteq> 0 then 4 else 0) OR (if idx AND bit2 \<noteq> 0 then 2 else 0)
                  OR (if idx AND bit3 \<noteq> 0 then 1 else 0);
          base = idx AND NOT mask;
          offsets = [0, bit3, bit2, bit2 OR bit3, bit1, bit1 OR bit3, bit1 OR bit2, mask]
      in fold (\<lambda>row. scatterRow A matrix re im (base OR offsets ! row)
                       ((row * 8 + nat col) * 2))
           [0..<8] st)"

definition apply3QubitGate ::
  "'a arith \<Rightarrow> string \<Rightarrow> 'q \<Rightarrow> 'q \<Rightarrow> 'q \<Rightarrow> 'a list \<Rightarrow> ('q, 'a) sim \<Rightarrow>
   'q error + ('q, 'a) sim"
where
  "apply3QubitGate A gateName q1 q2 q3 ps s =
     (case bitOf s q1 of
        None \<Rightarrow> Inl TypeError
      | Some bit1 \<Rightarrow>
          (case bitOf s q2 of
             None \<Rightarrow> Inl TypeError
           | Some bit2 \<Rightarrow>
               (case bitOf s q3 of
                  None \<Rightarrow> Inl TypeError
                | Some bit3 \<Rightarrow>
                    (case GATES A gateName ps of
                       Throws \<Rightarrow> Inl TypeError
                     | Undefined \<Rightarrow>
                         if activeCount s = 0
                         then Inr (scatterGate A 8 (apply3Entry A bit1 bit2 bit3 []) s)
                         else Inl TypeError
                     | Entries matrix \<Rightarrow>
                         Inr (scatterGate A 8 (apply3Entry A bit1 bit2 bit3 matrix) s)))))"

subsection \<open>Noise\<close>

text \<open>The loop \<^verbatim>\<open>this.#indices[i] ^= bit\<close> over the active entries.\<close>

definition xorIndices :: "int \<Rightarrow> ('q, 'a) sim \<Rightarrow> ('q, 'a) sim" where
  "xorIndices b s =
     s\<lparr> indices := fold (\<lambda>k idx. idx(k := word_of_int (uint (idx k) XOR b)))
                       [0..<activeCount s] (indices s) \<rparr>"

text \<open>The loops that multiply both parts of every amplitude whose target bit is set.\<close>

definition scaleSet :: "'a arith \<Rightarrow> int \<Rightarrow> 'a \<Rightarrow> ('q, 'a) sim \<Rightarrow> ('q, 'a) sim" where
  "scaleSet A b factor s =
     s\<lparr> amplitudes :=
          fold (\<lambda>k amp.
                  if bitSet (indices s k) b
                  then amp(k * 2 := fmul A (amp (k * 2)) factor,
                           k * 2 + 1 := fmul A (amp (k * 2 + 1)) factor)
                  else amp)
            [0..<activeCount s] (amplitudes s) \<rparr>"

definition sim_normalize :: "'a arith \<Rightarrow> ('q, 'a) sim \<Rightarrow> ('q, 'a) sim" where
  "sim_normalize A s =
     (let normSq = fold (\<lambda>k n. fadd A n (sqMagnitude A (amplitudes s) k))
                     [0..<activeCount s] (fnum A 0);
          nrm = fsqrt A normSq
      in s\<lparr> amplitudes :=
               fold (\<lambda>k amp. amp(k * 2 := fdiv A (amp (k * 2)) nrm,
                                 k * 2 + 1 := fdiv A (amp (k * 2 + 1)) nrm))
                 [0..<activeCount s] (amplitudes s) \<rparr>)"

text \<open>
  The body of the \<^verbatim>\<open>forEach\<close> of \<^verbatim>\<open>#applyStochasticNoise\<close>, for one target qubit, in
  its three steps: the bit flip (a draw against \<^verbatim>\<open>gateError\<close>), the phase flip (a draw
  against \<^verbatim>\<open>t2\<close>) and, when \<^verbatim>\<open>t1 > 0\<close>, the amplitude damping (a draw against
  \<^verbatim>\<open>t1 * p1\<close>: a jump, or a rescaling and \<^verbatim>\<open>#normalize\<close>).
\<close>

definition bitFlipStep ::
  "'a arith \<Rightarrow> (nat \<Rightarrow> 'a) \<Rightarrow> 'a noise \<Rightarrow> int \<Rightarrow> ('q, 'a) sim \<Rightarrow> ('q, 'a) sim"
where
  "bitFlipStep A rnd nm b s =
     (let r = rnd (draws s); s1 = s\<lparr> draws := draws s + 1 \<rparr>
      in if flt A r (gateError nm) then xorIndices b s1 else s1)"

definition phaseFlipStep ::
  "'a arith \<Rightarrow> (nat \<Rightarrow> 'a) \<Rightarrow> 'a noise \<Rightarrow> int \<Rightarrow> ('q, 'a) sim \<Rightarrow> ('q, 'a) sim"
where
  "phaseFlipStep A rnd nm b s =
     (let r = rnd (draws s); s1 = s\<lparr> draws := draws s + 1 \<rparr>
      in if flt A r (t2 nm) then scaleSet A b (fnum A (- 1)) s1 else s1)"

definition dampingStep ::
  "'a arith \<Rightarrow> (nat \<Rightarrow> 'a) \<Rightarrow> 'a noise \<Rightarrow> 'q \<Rightarrow> int \<Rightarrow> ('q, 'a) sim \<Rightarrow>
   'q error + ('q, 'a) sim"
where
  "dampingStep A rnd nm q b s =
     (if flt A (fnum A 0) (t1 nm) then
        (case getProb1 A q s of
           Inl e \<Rightarrow> Inl e
         | Inr p1 \<Rightarrow>
             (let jumpProb = fmul A (t1 nm) p1;
                  r = rnd (draws s);
                  s1 = s\<lparr> draws := draws s + 1 \<rparr>
              in
              if flt A r jumpProb then
                (case collapse A q 1 p1 s1 of
                   Inl e \<Rightarrow> Inl e
                 | Inr s2 \<Rightarrow> Inr (xorIndices b s2))
              else
                Inr (sim_normalize A
                       (scaleSet A b (fsqrt A (fsub A (fnum A 1) (t1 nm))) s1))))
      else Inr s)"

definition noiseOnQubit ::
  "'a arith \<Rightarrow> (nat \<Rightarrow> 'a) \<Rightarrow> 'a noise \<Rightarrow> 'q option \<Rightarrow> ('q, 'a) sim \<Rightarrow> 'q error + ('q, 'a) sim"
where
  "noiseOnQubit A rnd nm target s =
     (case target of
        None \<Rightarrow> Inl TypeError
      | Some q \<Rightarrow>
          (case bitOf s q of
             None \<Rightarrow> Inl TypeError
           | Some b \<Rightarrow>
               dampingStep A rnd nm q b
                 (phaseFlipStep A rnd nm b (bitFlipStep A rnd nm b s))))"

fun noiseLoop ::
  "'a arith \<Rightarrow> (nat \<Rightarrow> 'a) \<Rightarrow> 'a noise \<Rightarrow> 'q option list \<Rightarrow> ('q, 'a) sim \<Rightarrow>
   'q error + ('q, 'a) sim"
where
  "noiseLoop A rnd nm [] s = Inr s"
| "noiseLoop A rnd nm (q # qs) s =
     (case noiseOnQubit A rnd nm q s of
        Inl e \<Rightarrow> Inl e
      | Inr s' \<Rightarrow> noiseLoop A rnd nm qs s')"

definition applyStochasticNoise ::
  "'a arith \<Rightarrow> (nat \<Rightarrow> 'a) \<Rightarrow> 'a noise \<Rightarrow> 'q qref \<Rightarrow> ('q, 'a) sim \<Rightarrow> 'q error + ('q, 'a) sim"
where
  "applyStochasticNoise A rnd nm qs s = noiseLoop A rnd nm (qubitsOf qs) s"

subsection \<open>Run\<close>

text \<open>
  The end of the loop body of \<^verbatim>\<open>run\<close> for a gate: with a noise model, the noise
  channel on the instruction's qubits and a prune.
\<close>

definition noiseAfterGate ::
  "'a arith \<Rightarrow> (nat \<Rightarrow> 'a) \<Rightarrow> 'q qref \<Rightarrow> ('q, 'a) sim \<Rightarrow> 'q error + ('q, 'a) sim"
where
  "noiseAfterGate A rnd qs s =
     (case noiseModel s of
        None \<Rightarrow> Inr s
      | Some nm \<Rightarrow>
          (case applyStochasticNoise A rnd nm qs s of
             Inl e \<Rightarrow> Inl e
           | Inr s' \<Rightarrow> Inr (sim_prune A s')))"

text \<open>The RESET branch of \<^verbatim>\<open>run\<close>.\<close>

definition runReset ::
  "'a arith \<Rightarrow> (nat \<Rightarrow> 'a) \<Rightarrow> 'q \<Rightarrow> ('q, 'a) sim \<Rightarrow> 'q error + ('q, 'a) sim"
where
  "runReset A rnd q s =
     (case measure_qubit A rnd q s of
        Inl e \<Rightarrow> Inl e
      | Inr (res, s1) \<Rightarrow>
          if res = 1 then
            (case applyGate A ''X'' q [] s1 of
               Inl e \<Rightarrow> Inl e
             | Inr s2 \<Rightarrow> Inr (sim_prune A s2))
          else Inr (sim_prune A s1))"

text \<open>The MEASURE branch of \<^verbatim>\<open>run\<close>.\<close>

definition runMeasure ::
  "'a arith \<Rightarrow> (nat \<Rightarrow> 'a) \<Rightarrow> 'q \<Rightarrow> ('q, 'a) sim \<Rightarrow> 'q error + ('q, 'a) sim"
where
  "runMeasure A rnd q s =
     (case measure_qubit A rnd q s of
        Inl e \<Rightarrow> Inl e
      | Inr (res, s1) \<Rightarrow> Inr (sim_prune A (s1\<lparr> results := (results s1)(q \<mapsto> res) \<rparr>)))"

text \<open>
  The loop body of \<^verbatim>\<open>run\<close> for an instruction that is not IF or WHILE. With \<^verbatim>\<open>null\<close>
  for the qubit each of the three calls throws a TypeError at its first line.
\<close>

definition runOp ::
  "'a arith \<Rightarrow> (nat \<Rightarrow> 'a) \<Rightarrow> ('q, 'a) instr \<Rightarrow> ('q, 'a) sim \<Rightarrow> 'q error + ('q, 'a) sim"
where
  "runOp A rnd op s =
     (case qubit op of
        Tuple a b rest \<Rightarrow>
          (case (if length (a # b # rest) = 3
                 then apply3QubitGate A (gate op) a b (hd rest) (params op) s
                 else apply2QubitGate A (gate op) a b (params op) s) of
             Inl e \<Rightarrow> Inl e
           | Inr s' \<Rightarrow> noiseAfterGate A rnd (qubit op) s')
      | NoQubit \<Rightarrow> Inl TypeError
      | Single q \<Rightarrow>
          if gate op = ''RESET'' then runReset A rnd q s
          else if gate op = ''MEASURE'' then runMeasure A rnd q s
          else
            (case applyGate A (gate op) q (params op) s of
               Inl e \<Rightarrow> Inl e
             | Inr s' \<Rightarrow> noiseAfterGate A rnd (qubit op) s'))"

text \<open>
  \<^verbatim>\<open>run\<close>. A WHILE whose condition never changes loops for ever: the model takes fuel,
  one unit for each instruction, body and iteration it enters, and \<open>None\<close> is the run
  that has not returned when the fuel is spent. A missing \<^verbatim>\<open>condition\<close> is a TypeError,
  and so is a missing \<^verbatim>\<open>body\<close> when the condition holds.
\<close>

fun run ::
  "nat \<Rightarrow> 'a arith \<Rightarrow> (nat \<Rightarrow> 'a) \<Rightarrow> ('q, 'a) instr list \<Rightarrow> ('q, 'a) sim \<Rightarrow>
   ('q error + ('q, 'a) sim) option"
where
  "run 0 A rnd instructions s = None"
| "run (Suc fuel) A rnd [] s = Some (Inr s)"
| "run (Suc fuel) A rnd (op # rest) s =
     (if gate op = ''IF'' then
        (case condition op of
           None \<Rightarrow> Some (Inl TypeError)
         | Some (q, v) \<Rightarrow>
             if results s q = Some v then
               (case body op of
                  None \<Rightarrow> Some (Inl TypeError)
                | Some b \<Rightarrow>
                    (case run fuel A rnd b s of
                       None \<Rightarrow> None
                     | Some (Inl e) \<Rightarrow> Some (Inl e)
                     | Some (Inr s') \<Rightarrow> run fuel A rnd rest s'))
             else run fuel A rnd rest s)
      else if gate op = ''WHILE'' then
        (case condition op of
           None \<Rightarrow> Some (Inl TypeError)
         | Some (q, v) \<Rightarrow>
             if results s q = Some v then
               (case body op of
                  None \<Rightarrow> Some (Inl TypeError)
                | Some b \<Rightarrow>
                    (case run fuel A rnd b s of
                       None \<Rightarrow> None
                     | Some (Inl e) \<Rightarrow> Some (Inl e)
                     | Some (Inr s') \<Rightarrow> run fuel A rnd (op # rest) s'))
             else run fuel A rnd rest s)
      else
        (case runOp A rnd op s of
           Inl e \<Rightarrow> Some (Inl e)
         | Inr s' \<Rightarrow> run fuel A rnd rest s'))"

section \<open>Scope entry point\<close>

text \<open>
  The \<^verbatim>\<open>flush\<close> closure of \<^verbatim>\<open>Q.use\<close>, on the simulator and the circuit it closes over:
  compile the buffer, run it, clear the buffer, and return the cached result of
  \<^verbatim>\<open>measureQubit\<close> when one is given.
\<close>

definition flush ::
  "nat \<Rightarrow> 'a arith \<Rightarrow> (nat \<Rightarrow> 'a) \<Rightarrow> 'q option \<Rightarrow> ('q, 'a) sim \<times> ('q, 'a) circuit \<Rightarrow>
   ('q error + nat option \<times> ('q, 'a) sim \<times> ('q, 'a) circuit) option"
where
  "flush fuel A rnd measureQubit st =
     (case compile A (getInstructions (snd st)) of
        Inl e \<Rightarrow> Some (Inl e)
      | Inr compiled \<Rightarrow>
          (case run fuel A rnd compiled (fst st) of
             None \<Rightarrow> None
           | Some (Inl e) \<Rightarrow> Some (Inl e)
           | Some (Inr sim') \<Rightarrow>
               Some (Inr ((case measureQubit of None \<Rightarrow> None | Some q \<Rightarrow> getResult sim' q),
                          sim', clear (snd st)))))"

section \<open>Properties and test data\<close>

text \<open>
  The properties the theorems below are about. \<open>distinctIndices\<close>: the basis indices of
  the active entries are pairwise distinct. \<open>wellFormed\<close>: every qubit has a bit position
  below 64, the width of a stored index, and no two qubits share one. \<open>frame\<close> and
  \<open>sameConfig\<close>: what an operation leaves alone. \<open>cnotOk\<close>: the instruction, and every
  instruction of its body, is not a two-qubit CNOT whose control and target are the same
  qubit. The others are invariants of the scatter loop: \<open>mapInv\<close> ties the collision map
  to the destination buffer, \<open>accInv\<close> is its form for a loop that meets a fresh index
  at every step, \<open>cnotWord\<close> and \<open>swapWord\<close> are what CNOT and SWAP do to a stored index,
  and \<open>inRange\<close> is the range of a stored index.
\<close>

definition distinctIndices :: "('q, 'a) sim \<Rightarrow> bool" where
  "distinctIndices s = distinct (map (indices s) [0..<activeCount s])"

definition mapInv :: "'a scatter \<Rightarrow> bool" where
  "mapInv st =
     ((\<forall>j<nextCount st. collisionMap st (uint (dIdx st j)) = Some j) \<and>
      (\<forall>k j. collisionMap st k = Some j \<longrightarrow> j < nextCount st))"

definition cnotWord :: "nat \<Rightarrow> nat \<Rightarrow> 64 word \<Rightarrow> 64 word" where
  "cnotWord p1 p2 w = (if bit w p1 then w XOR word_of_int (push_bit p2 1) else w)"

definition swapWord :: "nat \<Rightarrow> nat \<Rightarrow> 64 word \<Rightarrow> 64 word" where
  "swapWord p1 p2 w =
     (if bit w p1 \<noteq> bit w p2 then w XOR word_of_int (push_bit p1 1 OR push_bit p2 1) else w)"

definition accInv :: "(nat \<Rightarrow> int) \<Rightarrow> nat \<Rightarrow> 'a scatter \<Rightarrow> bool" where
  "accInv key m st =
     (nextCount st = m \<and> (\<forall>j<m. dIdx st j = word_of_int (key j)) \<and>
      (\<forall>x. collisionMap st x \<noteq> None \<longrightarrow> x \<in> key ` {..<m}))"

definition wellFormed :: "('q, 'a) sim \<Rightarrow> bool" where
  "wellFormed s =
     ((\<forall>q pos. qubitMap s q = Some pos \<longrightarrow> pos < 64) \<and>
      inj_on (qubitMap s) (dom (qubitMap s)))"

definition inRange :: "int \<Rightarrow> bool" where
  "inRange x = (0 \<le> x \<and> x < 2 ^ 64)"

definition frame :: "('q, 'a) sim \<Rightarrow> ('q, 'a) sim \<Rightarrow> bool" where
  "frame s s' =
     (qubitMap s' = qubitMap s \<and> noiseModel s' = noiseModel s \<and> epsilon s' = epsilon s \<and>
      results s' = results s)"

fun cnotOk :: "('q, 'a) instr \<Rightarrow> bool" where
  "cnotOk (Instr g q ps c b t) =
     ((case q of
         Tuple x y rest \<Rightarrow> \<not> (g = ''CNOT'' \<and> length rest \<noteq> 1 \<and> x = y)
       | _ \<Rightarrow> True) \<and>
      (case b of None \<Rightarrow> True | Some ops \<Rightarrow> list_all cnotOk ops))"

definition sameConfig :: "('q, 'a) sim \<Rightarrow> ('q, 'a) sim \<Rightarrow> bool" where
  "sameConfig s s' =
     (qubitMap s' = qubitMap s \<and> noiseModel s' = noiseModel s \<and> epsilon s' = epsilon s)"

text \<open>
  Concrete inputs: a generator that always draws 0, simulators on one and two qubits
  (the handles are numbers), two programs, a noise profile with nothing but a certain
  gate error, and the buffer the recorder leaves after \<^verbatim>\<open>x(q)\<close> and the MEASURE of
  \<^verbatim>\<open>m(q)\<close>. \<open>stateOf\<close> reads the state a run returned.
\<close>

definition noDraws :: "nat \<Rightarrow> real" where
  "noDraws k = 0"

definition sim1 :: "(nat, real) sim" where
  "sim1 = Simulator real_arith [0] None None"

definition sim2 :: "(nat, real) sim" where
  "sim2 = Simulator real_arith [0, 1] None None"

definition cexProgram :: "(nat, real) instr list" where
  "cexProgram =
     [Instr ''H'' (Single 1) [] None None None,
      Instr ''H'' (Single 0) [] None None None,
      Instr ''CNOT'' (Tuple 0 0 []) [] None None None]"

definition bellProgram :: "(nat, real) instr list" where
  "bellProgram =
     [Instr ''H'' (Single 0) [] None None None,
      Instr ''CNOT'' (Tuple 0 1 []) [] None None None]"

definition stateOf :: "('e + 's) option \<Rightarrow> 's \<Rightarrow> 's" where
  "stateOf r d = (case r of Some (Inr s) \<Rightarrow> s | _ \<Rightarrow> d)"

definition gateErrorOnly :: "'a arith \<Rightarrow> 'a noise" where
  "gateErrorOnly A =
     \<lparr> gateError = fnum A 1, readoutError = fnum A 0, t1 = fnum A 0, t2 = fnum A 0 \<rparr>"

definition xThenMeasure :: "'q \<Rightarrow> nat \<Rightarrow> nat \<Rightarrow> ('q, 'a) circuit" where
  "xThenMeasure q tx tm =
     addOp ''MEASURE'' (Single q) [] None None tm
       (addOp ''X'' (Single q) [] None None tx [])"

text \<open>
  What the run of that buffer asks of the arithmetic. The compiler turns the X into
  \<^verbatim>\<open>U3(pi, 0, pi)\<close>, and on the fresh state, whose one amplitude is \<open>(1, 0)\<close>,
  \<^verbatim>\<open>applyGate\<close> writes four numbers with \<^verbatim>\<open>#updateState\<close>: \<open>xOnZero\<close>, the amplitude of
  index 0 from the entry \<open>(c, 0)\<close> of the matrix, and that of index 1 from the entry
  \<open>(s cos 0, s sin 0)\<close>, where \<open>c\<close> and \<open>s\<close> are the cosine and the sine of \<open>pi / 2\<close>.
  \<open>thresholdAt\<close> is the prune threshold for a number of active entries. \<open>arithAtX\<close>:
  \<open>pi\<close> is not a multiple of \<open>2 pi\<close> within \<open>1e-10\<close>; the amplitude on index 0, the
  rounding residue of \<open>c\<close>, is below the threshold; the amplitude on index 1 is not, and its
  squared magnitude added to 0 is 1; and 0 is not below 0. The exact reals are proved
  below to meet this. For doubles these are six facts of floating-point evaluation, with
  \<open>c\<close> about \<open>6.1e-17\<close> (its square far below \<open>1e-15\<close>), \<open>s\<close> equal to 1, and the
  cosine and sine of 0 equal to 1 and 0. \<open>unitDraws\<close>: every draw is below 1 and not
  below 0, the range of \<^verbatim>\<open>Math.random()\<close>.
\<close>

definition xOnZero :: "'a arith \<Rightarrow> nat \<Rightarrow> 'a" where
  "xOnZero A =
     (let c = fcos A (halfPi A); s = fsin A (halfPi A); z = fnum A 0; i = fnum A 1 in
      (\<lambda>k. z)
        (0 := fadd A z (fsub A (fmul A i c) (fmul A z z)),
         1 := fadd A z (fadd A (fmul A i z) (fmul A z c)),
         2 := fadd A z (fsub A (fmul A i (fmul A s (fcos A z)))
                               (fmul A z (fmul A s (fsin A z)))),
         3 := fadd A z (fadd A (fmul A i (fmul A s (fsin A z)))
                               (fmul A z (fmul A s (fcos A z))))))"

definition thresholdAt :: "'a arith \<Rightarrow> int \<Rightarrow> 'a" where
  "thresholdAt A n =
     fmul A (f1e_15 A) (fmax A (fnum A 1) (fdiv A (fnum A n) (fnum A 5000)))"

definition arithAtX :: "'a arith \<Rightarrow> bool" where
  "arithAtX A =
     (\<not> flt A (fabs A (frem A (fpi A) (twoPi A))) (f1e_10 A) \<and>
      \<not> fle A (thresholdAt A 2) (sqMagnitude A (xOnZero A) 0) \<and>
      fle A (thresholdAt A 2) (sqMagnitude A (xOnZero A) 1) \<and>
      fle A (thresholdAt A 1) (sqMagnitude A (xOnZero A) 1) \<and>
      fadd A (fnum A 0) (sqMagnitude A (xOnZero A) 1) = fnum A 1 \<and>
      \<not> flt A (fnum A 0) (fnum A 0))"

definition unitDraws :: "'a arith \<Rightarrow> (nat \<Rightarrow> 'a) \<Rightarrow> bool" where
  "unitDraws A rnd = (\<forall>k. flt A (rnd k) (fnum A 1) \<and> \<not> flt A (rnd k) (fnum A 0))"

section \<open>Exact arithmetic\<close>

lemma real_arith_simps [simp]:
  "fadd real_arith = (+)" "fsub real_arith = (-)" "fmul real_arith = (*)"
  "fdiv real_arith = (/)" "fneg real_arith = uminus" "flt real_arith = (<)"
  "fle real_arith = (\<le>)" "fsqrt real_arith = sqrt" "fcos real_arith = cos"
  "fsin real_arith = sin" "fabs real_arith = abs" "fpow2 real_arith = (\<lambda>x. x\<^sup>2)"
  "frem real_arith = real_rem" "fmax real_arith = max" "fnum real_arith = of_int"
  "f1e_15 real_arith = 1 / 10 ^ 15" "f1e_10 real_arith = 1 / 10 ^ 10"
  "fpi real_arith = pi" "fnan real_arith = 0" "ftruthy real_arith = (\<lambda>x. x \<noteq> 0)"
  by (simp_all add: real_arith_def)

lemma real_rem_small: "0 \<le> x \<Longrightarrow> x < y \<Longrightarrow> real_rem x y = x"
proof -
  assume a: "0 \<le> x" "x < y"
  then have "0 \<le> x / y" "x / y < 1" by simp_all
  then have "\<lfloor>x / y\<rfloor> = 0" by linarith
  with \<open>0 \<le> x / y\<close> show ?thesis by (simp add: real_rem_def)
qed

section \<open>The transpiler follows the decomposition table\<close>










section \<open>The optimizer on two and three gates of one wire\<close>

lemma isIdentity_other:
  "gate op \<notin> {''RX'', ''RY'', ''RZ'', ''U3''} \<Longrightarrow> \<not> isIdentity A op"
  by (simp add: isIdentity_def)

lemma canCommute_S_RZ:
  "canCommute (Instr ''S'' (Single q) ps c b t) (Instr ''RZ'' (Single q) ps' c' b' t') = Inr False"
  "canCommute (Instr ''RZ'' (Single q) ps' c' b' t') (Instr ''S'' (Single q) ps c b t) = Inr False"
  by (simp_all add: canCommute_def qubitsOf_def isArray_def COMMUTATION_RULES_def)

text \<open>
  Claim C3. For every qubit \<open>q\<close> (and whatever the other fields of the two instructions
  are), \<^verbatim>\<open>Optimizer.prune\<close> of \<open>[S(q), S(q)]\<close> is exactly one instruction, the first one
  with its gate rewritten to Z, and of \<open>[T(q), T(q)]\<close> exactly one instruction, the
  first one with its gate rewritten to S.
\<close>

theorem prune_merges_SS_and_TT:
  "Optimizer_prune A [Instr ''S'' (Single q) ps c b t, Instr ''S'' (Single q) ps' c' b' t']
     = Inr [Instr ''Z'' (Single q) ps c b t] \<and>
   Optimizer_prune A [Instr ''T'' (Single q) ps c b t, Instr ''T'' (Single q) ps' c' b' t']
     = Inr [Instr ''S'' (Single q) ps c b t]"
  by (simp add: Optimizer_prune_def pruneStep_def isIdentity_other findCommutingPartner_def
      qubitsOf_def pushOp_def wireOf_def slotAt_def areQubitsEqual_def setGate_def)

text \<open>
  \<^verbatim>\<open>#canCommute\<close> finds the rule for S and RZ and then asks whether the shared qubit is
  element 0 of the qubit of the "multi-qubit" gate, which here is a single Symbol: the
  answer is no, the S closes the window, and the two RZ stay apart whatever their angles
  (as long as neither is an identity and dropped).
\<close>

lemma prune_RZ_S_RZ:
  assumes "\<not> isIdentity A (Instr ''RZ'' (Single q) [a] c b t)"
    and "\<not> isIdentity A (Instr ''RZ'' (Single q) [a'] c'' b'' t'')"
  shows "Optimizer_prune A
      [Instr ''RZ'' (Single q) [a] c b t, Instr ''S'' (Single q) [] c' b' t',
       Instr ''RZ'' (Single q) [a'] c'' b'' t'']
     = Inr [Instr ''RZ'' (Single q) [a] c b t, Instr ''S'' (Single q) [] c' b' t',
       Instr ''RZ'' (Single q) [a'] c'' b'' t'']"
  using assms
  by (simp add: Optimizer_prune_def pruneStep_def isIdentity_other findCommutingPartner_def
      qubitsOf_def pushOp_def wireOf_def slotAt_def areQubitsEqual_def canCommute_S_RZ)

lemma not_identity_half: "\<not> isIdentity real_arith (Instr ''RZ'' (Single q) [1 / 2] c b t)"
proof -
  have p: "2 \<le> pi" by (rule pi_ge_two)
  have "real_rem (1 / 2) (2 * pi) = 1 / 2"
    by (rule real_rem_small) (use p in simp_all)
  then show ?thesis
    using p by (simp add: isIdentity_def twoPi_def param0_def)
qed

text \<open>
  Claim C2, on the code. For the angles \<open>a = b = 1/2\<close> (their sum is not a multiple of
  \<open>2 * pi\<close>) the claim expects \<open>[RZ(q, 1), S(q)]\<close>; \<^verbatim>\<open>Optimizer.prune\<close> returns the
  three instructions as they were.
\<close>

theorem prune_leaves_RZ_S_RZ_unmerged:
  "Optimizer_prune real_arith
     [Instr ''RZ'' (Single (0::nat)) [1 / 2] None None (Some 1),
      Instr ''S'' (Single 0) [] None None (Some 2),
      Instr ''RZ'' (Single 0) [1 / 2] None None (Some 3)]
   = Inr [Instr ''RZ'' (Single 0) [1 / 2] None None (Some 1),
          Instr ''S'' (Single 0) [] None None (Some 2),
          Instr ''RZ'' (Single 0) [1 / 2] None None (Some 3)]"
  by (rule prune_RZ_S_RZ) (rule not_identity_half)+

section \<open>Basis indices stay distinct\<close>

subsection \<open>The collision map\<close>

text \<open>
  A scatter row either finds its target index in the collision map and adds to that
  slot, or takes the next slot and records it: the map and the destination buffer stay
  in step, so the destination indices are distinct.
\<close>

lemma uint_word_of_int_64: "0 \<le> k \<Longrightarrow> k < 2 ^ 64 \<Longrightarrow> uint (word_of_int k :: 64 word) = k"
  by (simp add: uint_word_of_int take_bit_int_eq_self)

lemma scatterRow_mapInv:
  assumes "0 \<le> tIdx" "tIdx < 2 ^ 64" "mapInv st"
  shows "mapInv (scatterRow A m re im tIdx gIdx st)"
proof (cases "collisionMap st tIdx")
  case (Some b)
  with assms(3) show ?thesis by (simp add: scatterRow_def mapInv_def)
next
  case None
  have u: "uint (word_of_int tIdx :: 64 word) = tIdx"
    using assms(1,2) by (rule uint_word_of_int_64)
  from assms(3) None have ne: "\<And>j. j < nextCount st \<Longrightarrow> uint (dIdx st j) \<noteq> tIdx"
    by (auto simp: mapInv_def)
  let ?n = "nextCount st"
  let ?st1 = "st\<lparr> nextCount := ?n + 1,
                      collisionMap := (collisionMap st)(tIdx \<mapsto> ?n),
                      dIdx := (dIdx st)(?n := word_of_int tIdx),
                      dAmp := (dAmp st)(?n * 2 := fnum A 0, ?n * 2 + 1 := fnum A 0) \<rparr>"
  have a: "\<And>j. j < ?n + 1 \<Longrightarrow> collisionMap ?st1 (uint (dIdx ?st1 j)) = Some j"
  proof -
    fix j assume "j < ?n + 1"
    then consider "j < ?n" | "j = ?n" by linarith
    then show "collisionMap ?st1 (uint (dIdx ?st1 j)) = Some j"
    proof cases
      case 1
      with assms(3) have "collisionMap st (uint (dIdx st j)) = Some j" by (simp add: mapInv_def)
      with 1 ne [OF 1] show ?thesis by simp
    next
      case 2
      with u show ?thesis by simp
    qed
  qed
  have b: "\<And>k j. collisionMap ?st1 k = Some j \<Longrightarrow> j < ?n + 1"
  proof -
    fix k j assume h: "collisionMap ?st1 k = Some j"
    show "j < ?n + 1"
    proof (cases "k = tIdx")
      case True with h show ?thesis by simp
    next
      case False
      with h have "collisionMap st k = Some j" by simp
      with assms(3) have "j < ?n" by (simp add: mapInv_def)
      then show ?thesis by simp
    qed
  qed
  have "mapInv ?st1"
    unfolding mapInv_def using a b by (simp del: fun_upd_apply)
  moreover have "scatterRow A m re im tIdx gIdx st =
      ?st1\<lparr> dAmp := updateState A (dAmp ?st1) (?n * 2) re im
                          (matrixAt A m gIdx) (matrixAt A m (gIdx + 1)) \<rparr>"
    using None by (simp add: scatterRow_def)
  ultimately show ?thesis by (simp add: mapInv_def)
qed

lemma mapInv_distinct:
  assumes "mapInv st"
  shows "distinct (map (dIdx st) [0..<nextCount st])"
proof -
  have "inj_on (dIdx st) {..<nextCount st}"
  proof (rule inj_onI)
    fix i j assume "i \<in> {..<nextCount st}" "j \<in> {..<nextCount st}" "dIdx st i = dIdx st j"
    then have lt: "i < nextCount st" "j < nextCount st" and e: "dIdx st i = dIdx st j"
      by simp_all
    from assms lt(1) have "collisionMap st (uint (dIdx st i)) = Some i"
      by (simp add: mapInv_def)
    then have f1: "collisionMap st (uint (dIdx st j)) = Some i"
      unfolding e .
    from assms lt(2) have f2: "collisionMap st (uint (dIdx st j)) = Some j"
      by (simp add: mapInv_def)
    have "Some i = Some j" unfolding f1 [symmetric] f2 [symmetric] ..
    then show "i = j" by simp
  qed
  then show ?thesis by (simp add: distinct_map atLeast_upt [symmetric] lessThan_atLeast0)
qed


subsection \<open>Indices as 64-bit words\<close>

lemma bit_range: "pos < 64 \<Longrightarrow> (push_bit pos 1 :: int) < 2 ^ 64"
proof -
  assume "pos < 64"
  then have "(2::int) ^ pos < 2 ^ 64" by (rule power_strict_increasing) simp
  then show ?thesis by simp
qed

lemma target_range:
  assumes "0 \<le> off" "off < 2 ^ 64"
  shows "0 \<le> (uint (w :: 64 word) AND NOT msk) OR off"
    and "(uint w AND NOT msk) OR off < 2 ^ 64"
proof -
  have a: "0 \<le> uint w AND NOT msk" by simp
  have "uint w AND NOT msk \<le> uint w" by (rule AND_upper1) simp
  moreover have "uint w < 2 ^ 64" using uint_lt2p [of w] by simp
  ultimately have b: "uint w AND NOT msk < 2 ^ 64" by linarith
  show "0 \<le> (uint w AND NOT msk) OR off" using a assms by simp
  show "(uint w AND NOT msk) OR off < 2 ^ 64" by (rule OR_upper [OF a b assms(2)])
qed

lemma and_bit_nonzero: "(uint (w :: 64 word) AND push_bit p 1 \<noteq> 0) = bit w p"
  by (auto simp: and_exp_eq_0_iff_not_bit bit_uint_iff dest: bit_imp_le_length)

lemma word_of_int_xor_uint:
  "(word_of_int (uint (w :: 64 word) XOR k) :: 64 word) = w XOR word_of_int k"
  by (rule bit_word_eqI) (simp add: bit_simps bit_uint_iff)

lemma cnot_word:
  "(word_of_int (if uint w AND push_bit p1 1 \<noteq> 0 then uint w XOR push_bit p2 1 else uint w) :: 64 word)
     = cnotWord p1 p2 w"
  by (simp add: cnotWord_def and_bit_nonzero word_of_int_xor_uint del: push_bit_of_1)

lemma swap_word:
  "(word_of_int (if (uint w AND push_bit p1 1 \<noteq> 0) \<noteq> (uint w AND push_bit p2 1 \<noteq> 0)
        then uint w XOR (push_bit p1 1 OR push_bit p2 1) else uint w) :: 64 word)
     = swapWord p1 p2 w"
  by (simp add: swapWord_def and_bit_nonzero word_of_int_xor_uint del: push_bit_of_1)

lemma cnotWord_involution:
  assumes "p1 \<noteq> p2"
  shows "cnotWord p1 p2 (cnotWord p1 p2 w) = w"
proof (cases "bit w p1")
  case True
  have "bit (w XOR (word_of_int (push_bit p2 1) :: 64 word)) p1"
    using assms True by (auto simp: bit_simps)
  with True show ?thesis by (simp add: cnotWord_def xor.assoc)
next
  case False
  then show ?thesis by (simp add: cnotWord_def)
qed

lemma swapWord_involution:
  assumes "p1 < 64" "p2 < 64"
  shows "swapWord p1 p2 (swapWord p1 p2 w) = w"
proof (cases "bit w p1 \<noteq> bit w p2")
  case True
  have "bit (w XOR (word_of_int (push_bit p1 1 OR push_bit p2 1) :: 64 word)) p1
          \<noteq> bit (w XOR (word_of_int (push_bit p1 1 OR push_bit p2 1) :: 64 word)) p2"
    using assms True by (auto simp: bit_simps)
  with True show ?thesis by (simp add: swapWord_def xor.assoc)
next
  case False
  then show ?thesis by (simp add: swapWord_def)
qed

lemma cnotWord_inj: "p1 \<noteq> p2 \<Longrightarrow> inj (cnotWord p1 p2)"
  by (rule inj_on_inverseI [where g = "cnotWord p1 p2"]) (simp add: cnotWord_involution)

lemma swapWord_inj: "p1 < 64 \<Longrightarrow> p2 < 64 \<Longrightarrow> inj (swapWord p1 p2)"
  by (rule inj_on_inverseI [where g = "swapWord p1 p2"]) (simp add: swapWord_involution)

lemma xorWord_inj: "inj (\<lambda>w :: 64 word. word_of_int (uint w XOR b) :: 64 word)"
proof (rule injI)
  fix x y :: "64 word"
  assume "(word_of_int (uint x XOR b) :: 64 word) = word_of_int (uint y XOR b)"
  then have "x XOR (word_of_int b :: 64 word) = y XOR word_of_int b"
    by (simp only: word_of_int_xor_uint)
  then have "(x XOR word_of_int b) XOR (word_of_int b :: 64 word) = (y XOR word_of_int b) XOR word_of_int b"
    by (rule arg_cong)
  then show "x = y" by (simp add: xor.assoc)
qed

lemma xor_word: "(word_of_int (uint (w :: 64 word) XOR b) :: 64 word) = w XOR word_of_int b"
  by (rule word_of_int_xor_uint)


subsection \<open>Compaction, collapse and the noise XOR\<close>

lemma fold_upt_Suc: "fold f [0..<Suc n] x = f n (fold f [0..<n] x)"
  by simp

lemma compaction_fold:
  assumes step: "\<And>k c. (cIdx (step k c) = cIdx c \<and> writeIdx (step k c) = writeIdx c) \<or>
                  (cIdx (step k c) = (cIdx c)(writeIdx c := cIdx c k) \<and>
                   writeIdx (step k c) = writeIdx c + 1)"
    and w0: "writeIdx c0 = 0"
  shows "\<exists>ks. distinct ks \<and> set ks \<subseteq> {..<n} \<and>
           map (cIdx (fold step [0..<n] c0)) [0..<writeIdx (fold step [0..<n] c0)]
             = map (cIdx c0) ks \<and>
           writeIdx (fold step [0..<n] c0) \<le> n \<and>
           (\<forall>j\<ge>n. cIdx (fold step [0..<n] c0) j = cIdx c0 j)"
proof (induction n)
  case 0
  show ?case using w0 by simp
next
  case (Suc n)
  let ?c = "fold step [0..<n] c0"
  from Suc obtain ks where ks: "distinct ks" "set ks \<subseteq> {..<n}"
    "map (cIdx ?c) [0..<writeIdx ?c] = map (cIdx c0) ks"
    "writeIdx ?c \<le> n" "\<forall>j\<ge>n. cIdx ?c j = cIdx c0 j"
    by blast
  have f: "fold step [0..<Suc n] c0 = step n ?c" by simp
  from step [of n ?c] show ?case
  proof
    assume d: "cIdx (step n ?c) = cIdx ?c \<and> writeIdx (step n ?c) = writeIdx ?c"
    have "set ks \<subseteq> {..<Suc n}" using ks(2) by auto
    moreover have "map (cIdx (step n ?c)) [0..<writeIdx (step n ?c)] = map (cIdx c0) ks"
      using d ks(3) by simp
    moreover have "writeIdx (step n ?c) \<le> Suc n" using d ks(4) by simp
    moreover have "\<forall>j\<ge>Suc n. cIdx (step n ?c) j = cIdx c0 j" using d ks(5) by simp
    ultimately show ?thesis unfolding f using ks(1) by blast
  next
    assume k: "cIdx (step n ?c) = (cIdx ?c)(writeIdx ?c := cIdx ?c n) \<and>
               writeIdx (step n ?c) = writeIdx ?c + 1"
    let ?w = "writeIdx ?c"
    have d: "distinct (ks @ [n])" using ks(1,2) by auto
    have s: "set (ks @ [n]) \<subseteq> {..<Suc n}" using ks(2) by auto
    have "map (cIdx (step n ?c)) [0..<?w] = map (cIdx ?c) [0..<?w]"
      using k by simp
    moreover have "cIdx (step n ?c) ?w = cIdx c0 n" using k ks(5) by simp
    ultimately have m: "map (cIdx (step n ?c)) [0..<writeIdx (step n ?c)]
                         = map (cIdx c0) (ks @ [n])"
      using k ks(3) by simp
    have w: "writeIdx (step n ?c) \<le> Suc n" using k ks(4) by simp
    have u: "\<forall>j\<ge>Suc n. cIdx (step n ?c) j = cIdx c0 j" using k ks(4,5) by simp
    show ?thesis unfolding f using d s m w u by blast
  qed
qed

lemma compaction_distinct:
  assumes step: "\<And>k c. (cIdx (step k c) = cIdx c \<and> writeIdx (step k c) = writeIdx c) \<or>
                  (cIdx (step k c) = (cIdx c)(writeIdx c := cIdx c k) \<and>
                   writeIdx (step k c) = writeIdx c + 1)"
    and w0: "writeIdx c0 = 0"
    and d: "distinct (map (cIdx c0) [0..<n])"
  shows "distinct (map (cIdx (fold step [0..<n] c0)) [0..<writeIdx (fold step [0..<n] c0)])"
proof -
  from compaction_fold [of step c0 n, OF step w0]
  obtain ks where ks: "distinct ks" "set ks \<subseteq> {..<n}"
    "map (cIdx (fold step [0..<n] c0)) [0..<writeIdx (fold step [0..<n] c0)] = map (cIdx c0) ks"
    by blast
  from d have "inj_on (cIdx c0) {..<n}"
    by (simp add: distinct_map lessThan_atLeast0)
  from this ks(2) have "inj_on (cIdx c0) (set ks)" by (rule inj_on_subset)
  with ks(1) have "distinct (map (cIdx c0) ks)" by (simp add: distinct_map)
  with ks(3) show ?thesis by simp
qed

lemma pruneEntry_step:
  "(cIdx (pruneEntry A th k c) = cIdx c \<and> writeIdx (pruneEntry A th k c) = writeIdx c) \<or>
   (cIdx (pruneEntry A th k c) = (cIdx c)(writeIdx c := cIdx c k) \<and>
    writeIdx (pruneEntry A th k c) = writeIdx c + 1)"
  by (simp add: pruneEntry_def)

lemma collapseEntry_step:
  "(cIdx (collapseEntry A tg r nrm k c) = cIdx c \<and>
    writeIdx (collapseEntry A tg r nrm k c) = writeIdx c) \<or>
   (cIdx (collapseEntry A tg r nrm k c) = (cIdx c)(writeIdx c := cIdx c k) \<and>
    writeIdx (collapseEntry A tg r nrm k c) = writeIdx c + 1)"
  by (simp add: collapseEntry_def Let_def)

lemma sim_prune_distinct: "distinctIndices s \<Longrightarrow> distinctIndices (sim_prune A s)"
  unfolding distinctIndices_def sim_prune_def Let_def
  using compaction_distinct [of "pruneEntry A (currentPruneThreshold A s)"
      "\<lparr> cIdx = indices s, cAmp = amplitudes s, writeIdx = 0 \<rparr>" "activeCount s",
      OF pruneEntry_step]
  by simp

lemma collapse_distinct:
  "distinctIndices s \<Longrightarrow> collapse A q r p s = Inr s' \<Longrightarrow> distinctIndices s'"
  unfolding distinctIndices_def collapse_def Let_def
  using compaction_distinct [of "collapseEntry A tg r nrm"
      "\<lparr> cIdx = indices s, cAmp = amplitudes s, writeIdx = 0 \<rparr>" "activeCount s" for tg nrm,
      OF collapseEntry_step]
  by (auto split: option.splits)

lemma xor_fold:
  "fold (\<lambda>k idx. idx(k := g (idx k))) [0..<n] idx0 = (\<lambda>j. if j < n then g (idx0 j) else idx0 j)"
proof (induction n)
  case 0 show ?case by simp
next
  case (Suc n)
  show ?case unfolding fold_upt_Suc Suc by (rule ext) (simp add: less_Suc_eq)
qed

lemma xorIndices_distinct: "distinctIndices s \<Longrightarrow> distinctIndices (xorIndices b s)"
proof -
  assume d: "distinctIndices s"
  let ?g = "\<lambda>w :: 64 word. word_of_int (uint w XOR b) :: 64 word"
  have e: "map (indices (xorIndices b s)) [0..<activeCount s]
            = map (?g \<circ> indices s) [0..<activeCount s]"
    by (simp add: xorIndices_def xor_fold [of "\<lambda>w. word_of_int (uint w XOR b)"])
  have d2: "distinct (map (?g \<circ> indices s) [0..<activeCount s])"
    using d xorWord_inj [of b] unfolding distinctIndices_def
    by (simp add: distinct_map comp_inj_on inj_on_subset [OF _ subset_UNIV])
  have a: "activeCount (xorIndices b s) = activeCount s" by (simp add: xorIndices_def)
  show ?thesis unfolding distinctIndices_def a e by (rule d2)
qed


subsection \<open>The scatter loop\<close>

lemma mapInv_init:
  "mapInv \<lparr> dIdx = a, dAmp = b, collisionMap = Map.empty, nextCount = 0 \<rparr>"
  by (simp add: mapInv_def)

lemma entries_mapInv:
  assumes "\<And>w re im st. mapInv st \<Longrightarrow> mapInv (entry w re im st)"
    and "mapInv st0"
  shows "mapInv (fold (\<lambda>k. entry (iw k) (ar k) (ai k)) ks st0)"
  using assms(2)
proof (induction ks arbitrary: st0)
  case Nil then show ?case by simp
next
  case (Cons k ks)
  show ?case using Cons.IH [OF assms(1) [OF Cons.prems]] by simp
qed

lemma rows_mapInv:
  assumes "\<And>row. row < n \<Longrightarrow> 0 \<le> t row \<and> t row < 2 ^ 64"
    and "mapInv st"
  shows "mapInv (fold (\<lambda>row. scatterRow A m re im (t row) (g row)) [0..<n] st)"
  using assms(1)
proof (induction n)
  case 0 show ?case using assms(2) by simp
next
  case (Suc n)
  have "mapInv (fold (\<lambda>row. scatterRow A m re im (t row) (g row)) [0..<n] st)"
    using Suc by simp
  moreover have "0 \<le> t n \<and> t n < 2 ^ 64" using Suc.prems by simp
  ultimately show ?case
    unfolding fold_upt_Suc by (simp add: scatterRow_mapInv)
qed

lemma scatterGate_general:
  assumes "\<And>w re im st. mapInv st \<Longrightarrow> mapInv (entry w re im st)"
  shows "distinctIndices (scatterGate A rows entry s)"
proof -
  let ?s1 = "ensureCapacity A (activeCount s * rows) s"
  let ?st = "fold (\<lambda>k. entry (indices ?s1 k) (amplitudes ?s1 (k * 2)) (amplitudes ?s1 (k * 2 + 1)))
                 [0..<activeCount ?s1]
                 \<lparr> dIdx = indicesAux ?s1, dAmp = amplitudesAux ?s1,
                   collisionMap = Map.empty, nextCount = 0 \<rparr>"
  have "mapInv ?st" by (rule entries_mapInv [OF assms mapInv_init])
  then have "distinct (map (dIdx ?st) [0..<nextCount ?st])" by (rule mapInv_distinct)
  then have "distinctIndices (swapBuffers (?s1\<lparr> indicesAux := dIdx ?st, amplitudesAux := dAmp ?st,
                 activeCount := nextCount ?st \<rparr>))"
    by (simp add: distinctIndices_def swapBuffers_def)
  then show ?thesis
    unfolding scatterGate_def Let_def by (rule sim_prune_distinct)
qed

lemma accumulate_fresh:
  assumes "accInv key m st" "key m \<notin> key ` {..<m}"
  shows "accInv key (Suc m) (accumulate A (key m) x y st)"
proof -
  from assms have n: "collisionMap st (key m) = None" by (auto simp: accInv_def)
  from assms(1) have c: "nextCount st = m" by (simp add: accInv_def)
  show ?thesis
    using assms(1) n c
    by (auto simp: accInv_def accumulate_def Let_def less_Suc_eq)
qed

lemma accumulate_entries:
  assumes e: "\<And>w re im st. \<exists>x y. entry w re im st = accumulate A (f w) x y st"
    and inj: "inj_on (\<lambda>j. f (iw j)) {..<n}"
    and i: "accInv (\<lambda>j. f (iw j)) 0 st0"
    and m: "m \<le> n"
  shows "accInv (\<lambda>j. f (iw j)) m (fold (\<lambda>k. entry (iw k) (ar k) (ai k)) [0..<m] st0)"
  using m
proof (induction m)
  case 0 show ?case using i by simp
next
  case (Suc m)
  let ?st = "fold (\<lambda>k. entry (iw k) (ar k) (ai k)) [0..<m] st0"
  have ih: "accInv (\<lambda>j. f (iw j)) m ?st" using Suc by simp
  from e obtain x y where xy: "entry (iw m) (ar m) (ai m) ?st = accumulate A (f (iw m)) x y ?st"
    by blast
  have fresh: "f (iw m) \<notin> (\<lambda>j. f (iw j)) ` {..<m}"
  proof
    assume "f (iw m) \<in> (\<lambda>j. f (iw j)) ` {..<m}"
    then obtain j where j: "j < m" "f (iw m) = f (iw j)" by auto
    with Suc.prems have "m \<in> {..<n}" "j \<in> {..<n}" by simp_all
    with inj j(2) have "m = j" by (auto dest: inj_onD)
    with j(1) show False by simp
  qed
  show ?case
    unfolding fold_upt_Suc xy
    using accumulate_fresh [of "\<lambda>j. f (iw j)" m ?st A x y, OF ih fresh] .
qed

lemma scatterGate_accumulate:
  assumes e: "\<And>w re im st. \<exists>x y. entry w re im st = accumulate A (f w) x y st"
    and inj: "inj (\<lambda>w. word_of_int (f w) :: 64 word)"
    and d: "distinctIndices s"
  shows "distinctIndices (scatterGate A rows entry s)"
proof -
  let ?s1 = "ensureCapacity A (activeCount s * rows) s"
  let ?n = "activeCount s"
  let ?st = "fold (\<lambda>k. entry (indices ?s1 k) (amplitudes ?s1 (k * 2)) (amplitudes ?s1 (k * 2 + 1)))
                 [0..<?n]
                 \<lparr> dIdx = indicesAux ?s1, dAmp = amplitudesAux ?s1,
                   collisionMap = Map.empty, nextCount = 0 \<rparr>"
  have s1: "indices ?s1 = indices s" "activeCount ?s1 = ?n"
    by (simp_all add: ensureCapacity_def)
  let ?G = "\<lambda>w. word_of_int (f w) :: 64 word"
  from d have di: "inj_on (indices s) {..<?n}"
    by (simp add: distinctIndices_def distinct_map lessThan_atLeast0)
  have gi: "inj_on (\<lambda>j. ?G (indices s j)) {..<?n}"
    using comp_inj_on [OF di inj_on_subset [OF inj subset_UNIV]] by (simp add: comp_def)
  have ki: "inj_on (\<lambda>j. f (indices ?s1 j)) {..<?n}"
  proof (rule inj_onI)
    fix a b assume "a \<in> {..<?n}" "b \<in> {..<?n}" "f (indices ?s1 a) = f (indices ?s1 b)"
    then have "?G (indices s a) = ?G (indices s b)" "a \<in> {..<?n}" "b \<in> {..<?n}"
      by (simp_all add: s1)
    with gi show "a = b" by (auto dest: inj_onD)
  qed
  have "accInv (\<lambda>j. f (indices ?s1 j)) ?n ?st"
    by (rule accumulate_entries [where f = f and iw = "indices ?s1" and n = "?n", OF e ki])
       (simp_all add: accInv_def)
  then have n: "nextCount ?st = ?n" and v: "\<forall>j<?n. dIdx ?st j = ?G (indices s j)"
    by (simp_all add: accInv_def s1)
  have m1: "map (dIdx ?st) [0..<?n] = map (\<lambda>j. ?G (indices s j)) [0..<?n]"
    using v by simp
  have d2: "distinct (map (\<lambda>j. ?G (indices s j)) [0..<?n])"
    using gi by (simp add: distinct_map lessThan_atLeast0)
  have "distinct (map (dIdx ?st) [0..<nextCount ?st])"
    unfolding n m1 by (rule d2)
  then have "distinctIndices (swapBuffers (?s1\<lparr> indicesAux := dIdx ?st, amplitudesAux := dAmp ?st,
                 activeCount := nextCount ?st \<rparr>))"
    by (simp add: distinctIndices_def swapBuffers_def)
  then show ?thesis
    unfolding scatterGate_def Let_def s1 by (rule sim_prune_distinct)
qed


subsection \<open>The three gate appliers\<close>

lemma upt_2: "[0..<2] = [0, 1]" by (simp add: upt_rec)
lemma upt_4: "[0..<4] = [0, 1, 2, 3]" by (simp add: upt_rec)
lemma upt_8: "[0..<8] = [0, 1, 2, 3, 4, 5, 6, 7]" by (simp add: upt_rec)

lemma bitOf_wf:
  "wellFormed s \<Longrightarrow> bitOf s q = Some b \<Longrightarrow>
     \<exists>pos. pos < 64 \<and> b = push_bit pos 1 \<and> qubitMap s q = Some pos"
  by (auto simp: wellFormed_def bitOf_def split: option.splits)

lemma bit_nonneg: "0 \<le> (push_bit pos 1 :: int)" by simp

lemma base_range:
  "0 \<le> uint (w :: 64 word) AND NOT msk" "uint (w :: 64 word) AND NOT msk < 2 ^ 64"
  using target_range [of 0 w msk] by simp_all

lemma or_range: "0 \<le> (a::int) \<Longrightarrow> a < 2 ^ 64 \<Longrightarrow> 0 \<le> b \<Longrightarrow> b < 2 ^ 64
   \<Longrightarrow> 0 \<le> a OR b \<and> a OR b < 2 ^ 64"
proof -
  assume h: "0 \<le> a" "a < 2 ^ 64" "0 \<le> b" "b < 2 ^ 64"
  have "a OR b < 2 ^ 64" by (rule OR_upper [OF h(1,2,4)])
  moreover have "0 \<le> a OR b" using h by simp
  ultimately show ?thesis by blast
qed

lemma applyGateEntry_general:
  assumes "gateName \<noteq> ''Z''" "pos < 64" "mapInv st"
  shows "mapInv (applyGateEntry A gateName (push_bit pos 1) m w re im st)"
proof -
  let ?tb = "push_bit pos 1 :: int"
  let ?base = "uint w AND NOT ?tb"
  have r: "\<And>row. row < 2 \<Longrightarrow> 0 \<le> [?base, ?base OR ?tb] ! row \<and> [?base, ?base OR ?tb] ! row < 2 ^ 64"
  proof -
    fix row :: nat assume "row < 2"
    then consider "row = 0" | "row = 1" by linarith
    then show "0 \<le> [?base, ?base OR ?tb] ! row \<and> [?base, ?base OR ?tb] ! row < 2 ^ 64"
      using base_range [of w ?tb] target_range [of ?tb w ?tb] bit_range [OF assms(2)]
      by cases (simp_all del: push_bit_of_1)
  qed
  show ?thesis
    unfolding applyGateEntry_def Let_def using assms(1)
    by (simp only: if_False rows_mapInv [where t = "\<lambda>row. [?base, ?base OR ?tb] ! row" and n = 2, OF r assms(3)])
qed

lemma applyGateEntry_Z:
  "\<exists>x y. applyGateEntry A ''Z'' tb m w re im st = accumulate A (uint w) x y st"
  by (auto simp: applyGateEntry_def Let_def)

lemma word_of_int_uint_inj: "inj (\<lambda>w :: 64 word. word_of_int (uint w) :: 64 word)"
proof (rule injI)
  fix x y :: "64 word"
  assume "(word_of_int (uint x) :: 64 word) = word_of_int (uint y)"
  then show "x = y" by (simp only: word_of_int_uint)
qed

lemma applyGate_distinct:
  assumes "wellFormed s" "distinctIndices s" "applyGate A g q ps s = Inr s'"
  shows "distinctIndices s'"
proof -
  from assms(3) obtain tb where tb: "bitOf s q = Some tb"
    by (auto simp: applyGate_def split: option.splits looked.splits)
  from bitOf_wf [OF assms(1) tb] obtain pos where pos: "pos < 64" "tb = push_bit pos 1"
    by blast
  from assms(3) tb obtain m where s': "s' = scatterGate A 2 (applyGateEntry A g tb m) s"
    by (auto simp: applyGate_def split: option.splits looked.splits if_splits)
  show ?thesis
  proof (cases "g = ''Z''")
    case True
    show ?thesis unfolding s' True
      by (rule scatterGate_accumulate [where f = uint, OF applyGateEntry_Z word_of_int_uint_inj assms(2)])
  next
    case False
    show ?thesis unfolding s' pos(2)
      by (rule scatterGate_general) (rule applyGateEntry_general [OF False pos(1)])
  qed
qed


lemma lt4_cases: "(row::nat) < 4 \<Longrightarrow> row = 0 \<or> row = 1 \<or> row = 2 \<or> row = 3"
  by linarith

lemma lt8_cases:
  "(row::nat) < 8 \<Longrightarrow> row = 0 \<or> row = 1 \<or> row = 2 \<or> row = 3 \<or> row = 4 \<or> row = 5 \<or> row = 6 \<or> row = 7"
  by linarith

lemma inRange_0: "inRange 0" by (simp add: inRange_def)

lemma inRange_bit: "pos < 64 \<Longrightarrow> inRange (push_bit pos 1)"
  using bit_range [of pos] by (simp add: inRange_def)

lemma inRange_or: "inRange a \<Longrightarrow> inRange b \<Longrightarrow> inRange (a OR b)"
  using or_range [of a b] by (simp add: inRange_def)

lemma inRange_target: "inRange off \<Longrightarrow> inRange ((uint (w :: 64 word) AND NOT msk) OR off)"
  using target_range [of off w msk] by (simp add: inRange_def)

lemma rows_mapInv_range:
  assumes "\<And>row. row < n \<Longrightarrow> inRange (t row)" and "mapInv st"
  shows "mapInv (fold (\<lambda>row. scatterRow A m re im (t row) (g row)) [0..<n] st)"
  using assms by (intro rows_mapInv) (simp_all add: inRange_def)

lemma apply2Entry_general:
  assumes g: "gateName \<noteq> ''CZ''" "gateName \<noteq> ''CNOT''" "gateName \<noteq> ''SWAP''"
    and p: "p1 < 64" "p2 < 64" and i: "mapInv st"
  shows "mapInv (apply2Entry A gateName (push_bit p1 1) (push_bit p2 1) m w re im st)"
proof -
  let ?b1 = "push_bit p1 1 :: int" and ?b2 = "push_bit p2 1 :: int"
  let ?mask = "?b1 OR ?b2"
  let ?base = "uint w AND NOT ?mask"
  let ?offsets = "[0, ?b2, ?b1, ?mask]"
  note b = inRange_0 inRange_bit [OF p(1)] inRange_bit [OF p(2)]
  note bb = b inRange_or [OF b(2) b(3)]
  have r: "\<And>row. row < 4 \<Longrightarrow> inRange (?base OR ?offsets ! row)"
  proof -
    fix row :: nat assume "row < 4"
    then have "row = 0 \<or> row = 1 \<or> row = 2 \<or> row = 3" by (rule lt4_cases)
    then have "inRange (?offsets ! row)"
      using bb by (elim disjE) (simp_all del: push_bit_of_1)
    then show "inRange (?base OR ?offsets ! row)" by (rule inRange_target)
  qed
  have "mapInv (fold (\<lambda>row. scatterRow A m re im (?base OR ?offsets ! row)
                          ((row * 4 + nat ((if uint w AND ?b1 \<noteq> 0 then 2 else 0) OR
                                           (if uint w AND ?b2 \<noteq> 0 then 1 else 0))) * 2))
              [0..<4] st)"
    using r i by (rule rows_mapInv_range)
  then show ?thesis
    unfolding apply2Entry_def Let_def using g by (simp del: push_bit_of_1)
qed

lemma apply3Entry_general:
  assumes p: "p1 < 64" "p2 < 64" "p3 < 64" and i: "mapInv st"
  shows "mapInv (apply3Entry A (push_bit p1 1) (push_bit p2 1) (push_bit p3 1) m w re im st)"
proof -
  let ?b1 = "push_bit p1 1 :: int" and ?b2 = "push_bit p2 1 :: int" and ?b3 = "push_bit p3 1 :: int"
  let ?mask = "?b1 OR ?b2 OR ?b3"
  let ?base = "uint w AND NOT ?mask"
  let ?offsets = "[0, ?b3, ?b2, ?b2 OR ?b3, ?b1, ?b1 OR ?b3, ?b1 OR ?b2, ?mask]"
  note b = inRange_0 inRange_bit [OF p(1)] inRange_bit [OF p(2)] inRange_bit [OF p(3)]
  note bb = b inRange_or [OF b(3) b(4)] inRange_or [OF b(2) b(4)] inRange_or [OF b(2) b(3)]
    inRange_or [OF b(2) inRange_or [OF b(3) b(4)]]
  have r: "\<And>row. row < 8 \<Longrightarrow> inRange (?base OR ?offsets ! row)"
  proof -
    fix row :: nat assume "row < 8"
    then have "row = 0 \<or> row = 1 \<or> row = 2 \<or> row = 3 \<or> row = 4 \<or> row = 5 \<or> row = 6 \<or> row = 7"
      by (rule lt8_cases)
    then have "inRange (?offsets ! row)"
      using bb by (elim disjE) (simp_all del: push_bit_of_1)
    then show "inRange (?base OR ?offsets ! row)" by (rule inRange_target)
  qed
  have "mapInv (fold (\<lambda>row. scatterRow A m re im (?base OR ?offsets ! row)
                          ((row * 8 + nat ((if uint w AND ?b1 \<noteq> 0 then 4 else 0) OR
                                           (if uint w AND ?b2 \<noteq> 0 then 2 else 0) OR
                                           (if uint w AND ?b3 \<noteq> 0 then 1 else 0))) * 2))
              [0..<8] st)"
    using r i by (rule rows_mapInv_range)
  then show ?thesis
    unfolding apply3Entry_def Let_def by (simp del: push_bit_of_1)
qed

lemma apply2Entry_CZ:
  "\<exists>x y. apply2Entry A ''CZ'' b1 b2 m w re im st = accumulate A (uint w) x y st"
  by (auto simp: apply2Entry_def Let_def)

lemma apply2Entry_CNOT:
  "\<exists>x y. apply2Entry A ''CNOT'' b1 b2 m w re im st
     = accumulate A (if uint w AND b1 \<noteq> 0 then uint w XOR b2 else uint w) x y st"
  by (auto simp: apply2Entry_def Let_def)

lemma apply2Entry_SWAP:
  "\<exists>x y. apply2Entry A ''SWAP'' b1 b2 m w re im st
     = accumulate A (if (uint w AND b1 \<noteq> 0) \<noteq> (uint w AND b2 \<noteq> 0)
                     then uint w XOR (b1 OR b2) else uint w) x y st"
  by (auto simp: apply2Entry_def Let_def)

lemma apply2QubitGate_distinct:
  assumes wf: "wellFormed s" and d: "distinctIndices s"
    and c: "g = ''CNOT'' \<Longrightarrow> q1 \<noteq> q2"
    and r: "apply2QubitGate A g q1 q2 ps s = Inr s'"
  shows "distinctIndices s'"
proof -
  from r obtain b1 b2 where b: "bitOf s q1 = Some b1" "bitOf s q2 = Some b2"
    by (auto simp: apply2QubitGate_def split: option.splits looked.splits)
  from bitOf_wf [OF wf b(1)] obtain p1 where p1: "p1 < 64" "b1 = push_bit p1 1"
    "qubitMap s q1 = Some p1" by blast
  from bitOf_wf [OF wf b(2)] obtain p2 where p2: "p2 < 64" "b2 = push_bit p2 1"
    "qubitMap s q2 = Some p2" by blast
  from r b obtain m where s': "s' = scatterGate A 4 (apply2Entry A g b1 b2 m) s"
    by (auto simp: apply2QubitGate_def split: option.splits looked.splits if_splits)
  consider "g = ''CZ''" | "g = ''CNOT''" | "g = ''SWAP''"
    | "g \<noteq> ''CZ''" "g \<noteq> ''CNOT''" "g \<noteq> ''SWAP''" by blast
  then show ?thesis
  proof cases
    case 1
    show ?thesis unfolding s' 1
      by (rule scatterGate_accumulate [where f = uint, OF apply2Entry_CZ word_of_int_uint_inj d])
  next
    case 2
    have "q1 \<noteq> q2" using c 2 by simp
    with wf p1(3) p2(3) have ne: "p1 \<noteq> p2"
      by (auto simp: wellFormed_def inj_on_def dom_def)
    have inj: "inj (\<lambda>w :: 64 word.
        word_of_int (if uint w AND b1 \<noteq> 0 then uint w XOR b2 else uint w) :: 64 word)"
      unfolding p1(2) p2(2) cnot_word by (rule cnotWord_inj [OF ne])
    show ?thesis unfolding s' 2
      by (rule scatterGate_accumulate [OF apply2Entry_CNOT inj d])
  next
    case 3
    have inj: "inj (\<lambda>w :: 64 word.
        word_of_int (if (uint w AND b1 \<noteq> 0) \<noteq> (uint w AND b2 \<noteq> 0)
                     then uint w XOR (b1 OR b2) else uint w) :: 64 word)"
      unfolding p1(2) p2(2) swap_word by (rule swapWord_inj [OF p1(1) p2(1)])
    show ?thesis unfolding s' 3
      by (rule scatterGate_accumulate [OF apply2Entry_SWAP inj d])
  next
    case 4
    show ?thesis unfolding s' p1(2) p2(2)
      by (rule scatterGate_general) (rule apply2Entry_general [OF 4 p1(1) p2(1)])
  qed
qed

lemma apply3QubitGate_distinct:
  assumes wf: "wellFormed s" and r: "apply3QubitGate A g q1 q2 q3 ps s = Inr s'"
  shows "distinctIndices s'"
proof -
  from r obtain b1 b2 b3 where b: "bitOf s q1 = Some b1" "bitOf s q2 = Some b2"
      "bitOf s q3 = Some b3"
    by (auto simp: apply3QubitGate_def split: option.splits looked.splits)
  from bitOf_wf [OF wf b(1)] obtain p1 where p1: "p1 < 64" "b1 = push_bit p1 1" by blast
  from bitOf_wf [OF wf b(2)] obtain p2 where p2: "p2 < 64" "b2 = push_bit p2 1" by blast
  from bitOf_wf [OF wf b(3)] obtain p3 where p3: "p3 < 64" "b3 = push_bit p3 1" by blast
  from r b obtain m where s': "s' = scatterGate A 8 (apply3Entry A b1 b2 b3 m) s"
    by (auto simp: apply3QubitGate_def split: option.splits looked.splits if_splits)
  show ?thesis unfolding s' p1(2) p2(2) p3(2)
    by (rule scatterGate_general) (rule apply3Entry_general [OF p1(1) p2(1) p3(1)])
qed


subsection \<open>What the operations leave alone\<close>

lemma frame_refl: "frame s s" by (simp add: frame_def)

lemma frame_trans: "frame s s1 \<Longrightarrow> frame s1 s2 \<Longrightarrow> frame s s2"
  by (simp add: frame_def)

lemma frame_wellFormed: "frame s s' \<Longrightarrow> wellFormed s \<Longrightarrow> wellFormed s'"
  by (simp add: frame_def wellFormed_def)

lemma frame_draws: "frame s (s\<lparr> draws := n \<rparr>)" by (simp add: frame_def)

lemma sim_prune_frame: "frame s (sim_prune A s)"
  by (simp add: frame_def sim_prune_def Let_def)

lemma sim_prune_draws: "draws (sim_prune A s) = draws s"
  by (simp add: sim_prune_def Let_def)

lemma scatterGate_frame: "frame s (scatterGate A rows entry s)"
  by (simp add: frame_def scatterGate_def sim_prune_def swapBuffers_def ensureCapacity_def Let_def)

lemma scatterGate_draws: "draws (scatterGate A rows entry s) = draws s"
  by (simp add: scatterGate_def sim_prune_def swapBuffers_def ensureCapacity_def Let_def)

lemma applyGate_frame: "applyGate A g q ps s = Inr s' \<Longrightarrow> frame s s' \<and> draws s' = draws s"
  by (auto simp: applyGate_def scatterGate_frame scatterGate_draws split: option.splits looked.splits if_splits)

lemma apply2QubitGate_frame:
  "apply2QubitGate A g q1 q2 ps s = Inr s' \<Longrightarrow> frame s s' \<and> draws s' = draws s"
  by (auto simp: apply2QubitGate_def scatterGate_frame scatterGate_draws
      split: option.splits looked.splits if_splits)

lemma apply3QubitGate_frame:
  "apply3QubitGate A g q1 q2 q3 ps s = Inr s' \<Longrightarrow> frame s s' \<and> draws s' = draws s"
  by (auto simp: apply3QubitGate_def scatterGate_frame scatterGate_draws
      split: option.splits looked.splits if_splits)

lemma collapse_frame: "collapse A q r p s = Inr s' \<Longrightarrow> frame s s' \<and> draws s' = draws s"
  by (auto simp: collapse_def frame_def Let_def split: option.splits)

lemma xorIndices_frame: "frame s (xorIndices b s)" by (simp add: frame_def xorIndices_def)

lemma scaleSet_frame: "frame s (scaleSet A b f s)" by (simp add: frame_def scaleSet_def)

lemma sim_normalize_frame: "frame s (sim_normalize A s)"
  by (simp add: frame_def sim_normalize_def Let_def)

lemma scaleSet_distinct: "distinctIndices s \<Longrightarrow> distinctIndices (scaleSet A b f s)"
  by (simp add: distinctIndices_def scaleSet_def)

lemma sim_normalize_distinct: "distinctIndices s \<Longrightarrow> distinctIndices (sim_normalize A s)"
  by (simp add: distinctIndices_def sim_normalize_def Let_def)

lemma draws_distinct: "distinctIndices (s\<lparr> draws := n \<rparr>) = distinctIndices s"
  by (simp add: distinctIndices_def)

lemma measure_qubit_frame:
  assumes "measure_qubit A rnd q s = Inr (r, s')"
  shows "frame s s' \<and> draws s' = draws s + (case noiseModel s of None \<Rightarrow> 1 | Some nm \<Rightarrow> 2)"
proof (cases "noiseModel s")
  case None
  with assms show ?thesis
    by (auto simp: measure_qubit_def Let_def frame_def dest!: collapse_frame
        split: sum.splits)
next
  case (Some nm)
  with assms show ?thesis
    by (auto simp: measure_qubit_def Let_def frame_def dest!: collapse_frame
        split: sum.splits)
qed

lemma measure_qubit_distinct:
  assumes "distinctIndices s" "measure_qubit A rnd q s = Inr (r, s')"
  shows "distinctIndices s'"
proof (cases "noiseModel s")
  case None
  with assms show ?thesis
    by (auto simp: measure_qubit_def Let_def draws_distinct
        split: sum.splits elim!: collapse_distinct [rotated])
next
  case (Some nm)
  with assms show ?thesis
    by (auto simp: measure_qubit_def Let_def draws_distinct
        split: sum.splits elim!: collapse_distinct [rotated])
qed


lemma frame_sameConfig: "frame s s' \<Longrightarrow> sameConfig s s'"
  by (simp add: frame_def sameConfig_def)

lemma sameConfig_refl: "sameConfig s s" by (simp add: sameConfig_def)

lemma sameConfig_trans: "sameConfig s s1 \<Longrightarrow> sameConfig s1 s2 \<Longrightarrow> sameConfig s s2"
  by (simp add: sameConfig_def)

lemma sameConfig_wellFormed: "sameConfig s s' \<Longrightarrow> wellFormed s \<Longrightarrow> wellFormed s'"
  by (simp add: sameConfig_def wellFormed_def)

subsection \<open>Noise, RESET, MEASURE and run\<close>

lemma bitFlipStep_frame: "frame s (bitFlipStep A rnd nm b s)"
  by (simp add: bitFlipStep_def Let_def frame_def xorIndices_def)

lemma bitFlipStep_distinct: "distinctIndices s \<Longrightarrow> distinctIndices (bitFlipStep A rnd nm b s)"
  by (simp add: bitFlipStep_def Let_def xorIndices_distinct draws_distinct)

lemma phaseFlipStep_frame: "frame s (phaseFlipStep A rnd nm b s)"
  by (simp add: phaseFlipStep_def Let_def frame_def scaleSet_def)

lemma phaseFlipStep_distinct:
  "distinctIndices s \<Longrightarrow> distinctIndices (phaseFlipStep A rnd nm b s)"
  by (simp add: phaseFlipStep_def Let_def scaleSet_distinct draws_distinct)

text \<open>The three ways the damping step ends.\<close>

lemma dampingStep_cases:
  assumes "dampingStep A rnd nm q b s = Inr s'"
  obtains (off) "s' = s"
  | (jump) p1 s2 where "collapse A q 1 p1 (s\<lparr> draws := draws s + 1 \<rparr>) = Inr s2"
      "s' = xorIndices b s2"
  | (damp) f where "s' = sim_normalize A (scaleSet A b f (s\<lparr> draws := draws s + 1 \<rparr>))"
proof (cases "flt A (fnum A 0) (t1 nm)")
  case False
  with assms have "s' = s" by (simp add: dampingStep_def)
  then show ?thesis by (rule off)
next
  case True
  with assms obtain p1 where p1: "getProb1 A q s = Inr p1"
    by (auto simp: dampingStep_def split: sum.splits)
  show ?thesis
  proof (cases "flt A (rnd (draws s)) (fmul A (t1 nm) p1)")
    case j: True
    with assms True p1 obtain s2 where "collapse A q 1 p1 (s\<lparr> draws := draws s + 1 \<rparr>) = Inr s2"
      "s' = xorIndices b s2"
      by (auto simp: dampingStep_def Let_def split: sum.splits)
    then show ?thesis by (rule jump)
  next
    case j: False
    with assms True p1 have "s' = sim_normalize A
        (scaleSet A b (fsqrt A (fsub A (fnum A 1) (t1 nm))) (s\<lparr> draws := draws s + 1 \<rparr>))"
      by (auto simp: dampingStep_def Let_def split: sum.splits)
    then show ?thesis by (rule damp)
  qed
qed

lemma dampingStep_frame:
  assumes "dampingStep A rnd nm q b s = Inr s'"
  shows "frame s s'"
  using assms
proof (cases rule: dampingStep_cases)
  case off
  then show ?thesis by (simp add: frame_refl)
next
  case (jump p1 s2)
  show ?thesis unfolding jump(2)
    by (rule frame_trans [OF frame_trans [OF frame_draws collapse_frame [OF jump(1), THEN conjunct1]]
          xorIndices_frame])
next
  case (damp f)
  show ?thesis unfolding damp
    by (rule frame_trans [OF frame_trans [OF frame_draws scaleSet_frame] sim_normalize_frame])
qed

lemma dampingStep_distinct:
  assumes d: "distinctIndices s" and r: "dampingStep A rnd nm q b s = Inr s'"
  shows "distinctIndices s'"
  using r
proof (cases rule: dampingStep_cases)
  case off
  with d show ?thesis by simp
next
  case (jump p1 s2)
  have d1: "distinctIndices (s\<lparr> draws := draws s + 1 \<rparr>)" using d by (simp only: draws_distinct)
  show ?thesis unfolding jump(2)
    by (rule xorIndices_distinct [OF collapse_distinct [OF d1 jump(1)]])
next
  case (damp f)
  have d1: "distinctIndices (s\<lparr> draws := draws s + 1 \<rparr>)" using d by (simp only: draws_distinct)
  show ?thesis unfolding damp
    by (intro sim_normalize_distinct scaleSet_distinct d1)
qed

lemma noiseOnQubit_steps:
  assumes "noiseOnQubit A rnd nm tq s = Inr s'"
  obtains q b where "tq = Some q" "bitOf s q = Some b"
    "dampingStep A rnd nm q b (phaseFlipStep A rnd nm b (bitFlipStep A rnd nm b s)) = Inr s'"
  using assms by (auto simp: noiseOnQubit_def split: option.splits)

lemma noiseOnQubit_frame:
  assumes "noiseOnQubit A rnd nm tq s = Inr s'"
  shows "frame s s'"
  using assms
proof (cases rule: noiseOnQubit_steps)
  case (1 q b)
  show ?thesis
    by (rule frame_trans [OF frame_trans [OF bitFlipStep_frame phaseFlipStep_frame]
          dampingStep_frame [OF 1(3)]])
qed

lemma noiseOnQubit_distinct:
  assumes "distinctIndices s" "noiseOnQubit A rnd nm tq s = Inr s'"
  shows "distinctIndices s'"
  using assms(2)
proof (cases rule: noiseOnQubit_steps)
  case (1 q b)
  show ?thesis
    by (rule dampingStep_distinct [OF phaseFlipStep_distinct [OF bitFlipStep_distinct [OF assms(1)]]
          1(3)])
qed

lemma noiseLoop_frame: "noiseLoop A rnd nm qs s = Inr s' \<Longrightarrow> frame s s'"
proof (induction qs arbitrary: s)
  case Nil then show ?case by (simp add: frame_refl)
next
  case (Cons q qs)
  from Cons.prems obtain s1 where s1: "noiseOnQubit A rnd nm q s = Inr s1"
    "noiseLoop A rnd nm qs s1 = Inr s'"
    by (auto split: sum.splits)
  show ?case by (rule frame_trans [OF noiseOnQubit_frame [OF s1(1)] Cons.IH [OF s1(2)]])
qed

lemma noiseLoop_distinct:
  "distinctIndices s \<Longrightarrow> noiseLoop A rnd nm qs s = Inr s' \<Longrightarrow> distinctIndices s'"
proof (induction qs arbitrary: s)
  case Nil then show ?case by simp
next
  case (Cons q qs)
  from Cons.prems(2) obtain s1 where s1: "noiseOnQubit A rnd nm q s = Inr s1"
    "noiseLoop A rnd nm qs s1 = Inr s'"
    by (auto split: sum.splits)
  show ?case by (rule Cons.IH [OF noiseOnQubit_distinct [OF Cons.prems(1) s1(1)] s1(2)])
qed

lemma noiseAfterGate_cases:
  assumes "noiseAfterGate A rnd qs s = Inr s'"
  obtains (quiet) "noiseModel s = None" "s' = s"
  | (noisy) nm s1 where "noiseModel s = Some nm" "noiseLoop A rnd nm (qubitsOf qs) s = Inr s1"
      "s' = sim_prune A s1"
  using assms
  by (cases "noiseModel s")
     (auto simp: noiseAfterGate_def applyStochasticNoise_def split: sum.splits)

lemma noiseAfterGate_frame:
  assumes "noiseAfterGate A rnd qs s = Inr s'"
  shows "frame s s'"
  using assms
proof (cases rule: noiseAfterGate_cases)
  case quiet
  then show ?thesis by (simp add: frame_refl)
next
  case (noisy nm s1)
  show ?thesis unfolding noisy(3)
    by (rule frame_trans [OF noiseLoop_frame [OF noisy(2)] sim_prune_frame])
qed

lemma noiseAfterGate_distinct:
  assumes "distinctIndices s" "noiseAfterGate A rnd qs s = Inr s'"
  shows "distinctIndices s'"
  using assms(2)
proof (cases rule: noiseAfterGate_cases)
  case quiet
  with assms(1) show ?thesis by simp
next
  case (noisy nm s1)
  show ?thesis unfolding noisy(3)
    by (rule sim_prune_distinct [OF noiseLoop_distinct [OF assms(1) noisy(2)]])
qed

text \<open>The two ways a RESET ends.\<close>

lemma runReset_cases:
  assumes "runReset A rnd q s = Inr s'"
  obtains (one) s1 s2 where "measure_qubit A rnd q s = Inr (1, s1)"
      "applyGate A ''X'' q [] s1 = Inr s2" "s' = sim_prune A s2"
  | (zero) res s1 where "measure_qubit A rnd q s = Inr (res, s1)" "res \<noteq> 1"
      "s' = sim_prune A s1"
proof -
  from assms obtain res s1 where m: "measure_qubit A rnd q s = Inr (res, s1)"
    by (auto simp: runReset_def split: sum.splits)
  show ?thesis
  proof (cases "res = 1")
    case True
    with assms m obtain s2 where "applyGate A ''X'' q [] s1 = Inr s2" "s' = sim_prune A s2"
      by (auto simp: runReset_def split: sum.splits)
    with m True show ?thesis by (auto intro: one)
  next
    case False
    with assms m have "s' = sim_prune A s1" by (simp add: runReset_def)
    with m False show ?thesis by (auto intro: zero)
  qed
qed

lemma runReset_frame:
  assumes "runReset A rnd q s = Inr s'"
  shows "frame s s' \<and> draws s' = draws s + (case noiseModel s of None \<Rightarrow> 1 | Some nm \<Rightarrow> 2)"
  using assms
proof (cases rule: runReset_cases)
  case (one s1 s2)
  note m = measure_qubit_frame [OF one(1)]
  note g = applyGate_frame [OF one(2)]
  have "frame s s'" unfolding one(3)
    by (rule frame_trans [OF frame_trans [OF m [THEN conjunct1] g [THEN conjunct1]]
          sim_prune_frame])
  moreover have "draws s' = draws s + (case noiseModel s of None \<Rightarrow> 1 | Some nm \<Rightarrow> 2)"
    unfolding one(3) sim_prune_draws using m g by simp
  ultimately show ?thesis by simp
next
  case (zero res s1)
  note m = measure_qubit_frame [OF zero(1)]
  have "frame s s'" unfolding zero(3)
    by (rule frame_trans [OF m [THEN conjunct1] sim_prune_frame])
  moreover have "draws s' = draws s + (case noiseModel s of None \<Rightarrow> 1 | Some nm \<Rightarrow> 2)"
    unfolding zero(3) sim_prune_draws using m by simp
  ultimately show ?thesis by simp
qed

lemma runReset_distinct:
  assumes wf: "wellFormed s" and d: "distinctIndices s" and r: "runReset A rnd q s = Inr s'"
  shows "distinctIndices s'"
  using r
proof (cases rule: runReset_cases)
  case (one s1 s2)
  note f1 = measure_qubit_frame [OF one(1), THEN conjunct1]
  note d1 = measure_qubit_distinct [OF d one(1)]
  show ?thesis unfolding one(3)
    by (rule sim_prune_distinct [OF applyGate_distinct [OF frame_wellFormed [OF f1 wf] d1 one(2)]])
next
  case (zero res s1)
  show ?thesis unfolding zero(3)
    by (rule sim_prune_distinct [OF measure_qubit_distinct [OF d zero(1)]])
qed

lemma runMeasure_cases:
  assumes "runMeasure A rnd q s = Inr s'"
  obtains res s1 where "measure_qubit A rnd q s = Inr (res, s1)"
    "s' = sim_prune A (s1\<lparr> results := (results s1)(q \<mapsto> res) \<rparr>)"
  using assms by (auto simp: runMeasure_def split: sum.splits)

lemma runMeasure_config:
  assumes "runMeasure A rnd q s = Inr s'"
  shows "sameConfig s s'"
  using assms
proof (cases rule: runMeasure_cases)
  case (1 res s1)
  from measure_qubit_frame [OF 1(1)] show ?thesis unfolding 1(2)
    by (simp add: frame_def sameConfig_def sim_prune_def Let_def)
qed

lemma runMeasure_distinct:
  assumes d: "distinctIndices s" and r: "runMeasure A rnd q s = Inr s'"
  shows "distinctIndices s'"
  using r
proof (cases rule: runMeasure_cases)
  case (1 res s1)
  from measure_qubit_distinct [OF d 1(1)]
  have "distinctIndices (s1\<lparr> results := (results s1)(q \<mapsto> res) \<rparr>)"
    by (simp add: distinctIndices_def)
  then show ?thesis unfolding 1(2) by (rule sim_prune_distinct)
qed

text \<open>The five ways the loop body of \<open>run\<close> ends for a gate.\<close>

lemma runOp_cases:
  assumes "runOp A rnd op s = Inr s'"
  obtains (reset) q where "qubit op = Single q" "gate op = ''RESET''"
      "runReset A rnd q s = Inr s'"
  | (measure) q where "qubit op = Single q" "gate op = ''MEASURE''"
      "runMeasure A rnd q s = Inr s'"
  | (one) q s1 where "qubit op = Single q" "gate op \<noteq> ''RESET''" "gate op \<noteq> ''MEASURE''"
      "applyGate A (gate op) q (params op) s = Inr s1"
      "noiseAfterGate A rnd (qubit op) s1 = Inr s'"
  | (two) x y rest s1 where "qubit op = Tuple x y rest" "length rest \<noteq> 1"
      "apply2QubitGate A (gate op) x y (params op) s = Inr s1"
      "noiseAfterGate A rnd (qubit op) s1 = Inr s'"
  | (three) x y z s1 where "qubit op = Tuple x y [z]"
      "apply3QubitGate A (gate op) x y z (params op) s = Inr s1"
      "noiseAfterGate A rnd (qubit op) s1 = Inr s'"
proof (cases "qubit op")
  case NoQubit
  with assms show ?thesis by (simp add: runOp_def)
next
  case (Single q)
  consider "gate op = ''RESET''" | "gate op \<noteq> ''RESET''" "gate op = ''MEASURE''"
    | "gate op \<noteq> ''RESET''" "gate op \<noteq> ''MEASURE''" by blast
  then show ?thesis
  proof cases
    case 1
    with assms Single have "runReset A rnd q s = Inr s'" by (simp add: runOp_def)
    with Single 1 show ?thesis by (rule reset)
  next
    case 2
    with assms Single have "runMeasure A rnd q s = Inr s'" by (simp add: runOp_def)
    with Single 2(2) show ?thesis by (rule measure)
  next
    case 3
    with assms Single obtain s1 where "applyGate A (gate op) q (params op) s = Inr s1"
      "noiseAfterGate A rnd (qubit op) s1 = Inr s'"
      by (auto simp: runOp_def split: sum.splits)
    with Single 3 show ?thesis by (rule one)
  qed
next
  case (Tuple x y rest)
  show ?thesis
  proof (cases "length rest = 1")
    case True
    then obtain z where z: "rest = [z]" by (cases rest) auto
    with assms Tuple obtain s1 where "apply3QubitGate A (gate op) x y z (params op) s = Inr s1"
      "noiseAfterGate A rnd (qubit op) s1 = Inr s'"
      by (auto simp: runOp_def split: sum.splits)
    with Tuple z show ?thesis by (auto intro: three)
  next
    case False
    with assms Tuple obtain s1 where "apply2QubitGate A (gate op) x y (params op) s = Inr s1"
      "noiseAfterGate A rnd (qubit op) s1 = Inr s'"
      by (auto simp: runOp_def split: sum.splits)
    with Tuple False show ?thesis by (auto intro: two)
  qed
qed

lemma runOp_config:
  assumes "runOp A rnd op s = Inr s'"
  shows "sameConfig s s'"
  using assms
proof (cases rule: runOp_cases)
  case (reset q)
  from runReset_frame [OF reset(3)] show ?thesis by (simp add: frame_sameConfig)
next
  case (measure q)
  then show ?thesis by (simp add: runMeasure_config)
next
  case (one q s1)
  show ?thesis
    by (rule frame_sameConfig [OF frame_trans [OF applyGate_frame [OF one(4), THEN conjunct1]
          noiseAfterGate_frame [OF one(5)]]])
next
  case (two x y rest s1)
  show ?thesis
    by (rule frame_sameConfig [OF frame_trans [OF apply2QubitGate_frame [OF two(3), THEN conjunct1]
          noiseAfterGate_frame [OF two(4)]]])
next
  case (three x y z s1)
  show ?thesis
    by (rule frame_sameConfig [OF frame_trans [OF apply3QubitGate_frame [OF three(2), THEN conjunct1]
          noiseAfterGate_frame [OF three(3)]]])
qed

lemma runOp_distinct:
  assumes wf: "wellFormed s" and d: "distinctIndices s" and ok: "cnotOk op"
    and r: "runOp A rnd op s = Inr s'"
  shows "distinctIndices s'"
  using r
proof (cases rule: runOp_cases)
  case (reset q)
  from runReset_distinct [OF wf d reset(3)] show ?thesis .
next
  case (measure q)
  from runMeasure_distinct [OF d measure(3)] show ?thesis .
next
  case (one q s1)
  show ?thesis
    by (rule noiseAfterGate_distinct [OF applyGate_distinct [OF wf d one(4)] one(5)])
next
  case (two x y rest s1)
  have c: "gate op = ''CNOT'' \<Longrightarrow> x \<noteq> y" using ok two(1,2) by (cases op) auto
  show ?thesis
    by (rule noiseAfterGate_distinct [OF apply2QubitGate_distinct [OF wf d c two(3)] two(4)])
next
  case (three x y z s1)
  show ?thesis
    by (rule noiseAfterGate_distinct [OF apply3QubitGate_distinct [OF wf three(2)] three(3)])
qed

text \<open>The ways \<open>run\<close> returns a state.\<close>

lemma run_cases:
  assumes "run (Suc fuel) A rnd ops s = Some (Inr s')"
  obtains (finished) "ops = []" "s' = s"
  | (step) op rest s1 where "ops = op # rest" "gate op \<noteq> ''IF''" "gate op \<noteq> ''WHILE''"
      "runOp A rnd op s = Inr s1" "run fuel A rnd rest s1 = Some (Inr s')"
  | (skip) op rest where "ops = op # rest" "gate op = ''IF'' \<or> gate op = ''WHILE''"
      "run fuel A rnd rest s = Some (Inr s')"
  | (ifBody) op rest b s1 where "ops = op # rest" "gate op = ''IF''" "body op = Some b"
      "run fuel A rnd b s = Some (Inr s1)" "run fuel A rnd rest s1 = Some (Inr s')"
  | (whileBody) op rest b s1 where "ops = op # rest" "gate op = ''WHILE''" "body op = Some b"
      "run fuel A rnd b s = Some (Inr s1)" "run fuel A rnd (op # rest) s1 = Some (Inr s')"
proof (cases ops)
  case Nil
  with assms show ?thesis by (auto intro: finished)
next
  case (Cons op rest)
  note r = assms [unfolded Cons]
  consider (IF) "gate op = ''IF''" | (WHILE) "gate op \<noteq> ''IF''" "gate op = ''WHILE''"
    | (GATE) "gate op \<noteq> ''IF''" "gate op \<noteq> ''WHILE''" by blast
  then show ?thesis
  proof cases
    case GATE
    with r obtain s1 where "runOp A rnd op s = Inr s1" "run fuel A rnd rest s1 = Some (Inr s')"
      by (auto split: sum.splits)
    with Cons GATE show ?thesis by (auto intro: step)
  next
    case IF
    with r obtain q v where c: "condition op = Some (q, v)"
      by (auto split: option.splits)
    show ?thesis
    proof (cases "results s q = Some v")
      case False
      with r IF c have "run fuel A rnd rest s = Some (Inr s')" by simp
      with Cons IF show ?thesis by (auto intro: skip)
    next
      case True
      with r IF c obtain b s1 where "body op = Some b"
        "run fuel A rnd b s = Some (Inr s1)" "run fuel A rnd rest s1 = Some (Inr s')"
        by (auto split: option.splits sum.splits)
      with Cons IF show ?thesis by (auto intro: ifBody)
    qed
  next
    case WHILE
    with r obtain q v where c: "condition op = Some (q, v)"
      by (auto split: option.splits)
    show ?thesis
    proof (cases "results s q = Some v")
      case False
      with r WHILE c have "run fuel A rnd rest s = Some (Inr s')" by simp
      with Cons WHILE show ?thesis by (auto intro: skip)
    next
      case True
      with r WHILE c obtain b s1 where "body op = Some b"
        "run fuel A rnd b s = Some (Inr s1)" "run fuel A rnd (op # rest) s1 = Some (Inr s')"
        by (auto split: option.splits sum.splits)
      with Cons WHILE show ?thesis by (auto intro: whileBody)
    qed
  qed
qed

lemma run_config: "run fuel A rnd ops s = Some (Inr s') \<Longrightarrow> sameConfig s s'"
proof (induction fuel arbitrary: ops s s')
  case 0 then show ?case by simp
next
  case (Suc fuel)
  from Suc.prems show ?case
  proof (cases rule: run_cases)
    case finished
    then show ?thesis by (simp add: sameConfig_refl)
  next
    case (step op rest s1)
    show ?thesis by (rule sameConfig_trans [OF runOp_config [OF step(4)] Suc.IH [OF step(5)]])
  next
    case (skip op rest)
    show ?thesis by (rule Suc.IH [OF skip(3)])
  next
    case (ifBody op rest b s1)
    show ?thesis by (rule sameConfig_trans [OF Suc.IH [OF ifBody(4)] Suc.IH [OF ifBody(5)]])
  next
    case (whileBody op rest b s1)
    show ?thesis by (rule sameConfig_trans [OF Suc.IH [OF whileBody(4)] Suc.IH [OF whileBody(5)]])
  qed
qed

lemma cnotOk_body: "cnotOk op \<Longrightarrow> body op = Some b \<Longrightarrow> list_all cnotOk b"
  by (cases op) simp

lemma run_distinct:
  "wellFormed s \<Longrightarrow> distinctIndices s \<Longrightarrow> list_all cnotOk ops \<Longrightarrow>
   run fuel A rnd ops s = Some (Inr s') \<Longrightarrow> distinctIndices s'"
proof (induction fuel arbitrary: ops s s')
  case 0 then show ?case by simp
next
  case (Suc fuel)
  from Suc.prems(4) show ?case
  proof (cases rule: run_cases)
    case finished
    with Suc.prems(2) show ?thesis by simp
  next
    case (step op rest s1)
    from Suc.prems(3) step(1) have ok: "cnotOk op" "list_all cnotOk rest" by simp_all
    note wf1 = sameConfig_wellFormed [OF runOp_config [OF step(4)] Suc.prems(1)]
    note d1 = runOp_distinct [OF Suc.prems(1,2) ok(1) step(4)]
    show ?thesis by (rule Suc.IH [OF wf1 d1 ok(2) step(5)])
  next
    case (skip op rest)
    from Suc.prems(3) skip(1) have ok: "list_all cnotOk rest" by simp
    show ?thesis by (rule Suc.IH [OF Suc.prems(1,2) ok skip(3)])
  next
    case (ifBody op rest b s1)
    from Suc.prems(3) ifBody(1) have ok: "cnotOk op" "list_all cnotOk rest" by simp_all
    note okb = cnotOk_body [OF ok(1) ifBody(3)]
    note wf1 = sameConfig_wellFormed [OF run_config [OF ifBody(4)] Suc.prems(1)]
    note d1 = Suc.IH [OF Suc.prems(1,2) okb ifBody(4)]
    show ?thesis by (rule Suc.IH [OF wf1 d1 ok(2) ifBody(5)])
  next
    case (whileBody op rest b s1)
    from Suc.prems(3) whileBody(1) have ok: "cnotOk op" "list_all cnotOk (op # rest)"
      by simp_all
    note okb = cnotOk_body [OF ok(1) whileBody(3)]
    note wf1 = sameConfig_wellFormed [OF run_config [OF whileBody(4)] Suc.prems(1)]
    note d1 = Suc.IH [OF Suc.prems(1,2) okb whileBody(4)]
    show ?thesis by (rule Suc.IH [OF wf1 d1 ok(2) whileBody(5)])
  qed
qed

section \<open>Evaluating the simulator on concrete programs\<close>

lemma upt_1: "[0..<Suc 0] = [0]" by simp

lemmas eval_defs = runOp_def applyGate_def GATES_def scatterGate_def ensureCapacity_def
  applyGateEntry_def scatterRow_def updateState_def matrixAt_def swapBuffers_def sim_prune_def
  pruneEntry_def currentPruneThreshold_def sqMagnitude_def bitOf_def Simulator_def
  apply2QubitGate_def apply2Entry_def accumulate_def noiseAfterGate_def Let_def
  memoryBudget_def INV_SQRT2_def upt_2 upt_4 argAt_def upt_1
  applyStochasticNoise_def qubitsOf_def noiseOnQubit_def bitFlipStep_def phaseFlipStep_def
  dampingStep_def xorIndices_def scaleSet_def runMeasure_def measure_qubit_def getProb1_def
  bitSet_def collapse_def collapseEntry_def getResult_def runReset_def

lemma Some_not_None: "x = Some y \<Longrightarrow> x \<noteq> None" by simp

section \<open>The constructor\<close>

lemma Simulator_map:
  assumes "qubitMap (Simulator A qs nm e) q = Some pos"
  shows "pos < length qs \<and> qs ! pos = q"
proof -
  from assms have "map_of (rev (zip qs [0..<length qs])) q = Some pos"
    by (simp add: Simulator_def)
  then have "(q, pos) \<in> set (zip qs [0..<length qs])"
    by (auto dest: map_of_SomeD)
  then obtain i where "qs ! i = q" "[0..<length qs] ! i = pos" "i < length qs"
    by (auto simp: in_set_zip)
  then show ?thesis by simp
qed

lemma Simulator_wellFormed:
  assumes "length qs \<le> 64"
  shows "wellFormed (Simulator A qs nm e)"
proof -
  have "\<And>q pos. qubitMap (Simulator A qs nm e) q = Some pos \<Longrightarrow> pos < 64"
    using Simulator_map [of A qs nm e] assms by fastforce
  moreover have "inj_on (qubitMap (Simulator A qs nm e)) (dom (qubitMap (Simulator A qs nm e)))"
  proof (rule inj_onI)
    fix x y
    assume "x \<in> dom (qubitMap (Simulator A qs nm e))"
      and e: "qubitMap (Simulator A qs nm e) x = qubitMap (Simulator A qs nm e) y"
    from \<open>x \<in> dom (qubitMap (Simulator A qs nm e))\<close>
    obtain p where p: "qubitMap (Simulator A qs nm e) x = Some p" by auto
    from p have p': "qubitMap (Simulator A qs nm e) y = Some p" unfolding e .
    from Simulator_map [OF p] Simulator_map [OF p'] show "x = y" by simp
  qed
  ultimately show ?thesis unfolding wellFormed_def by blast
qed

lemma Simulator_distinct: "distinctIndices (Simulator A qs nm e)"
  by (simp add: distinctIndices_def Simulator_def)

section \<open>Distinct indices through every operation\<close>

text \<open>
  Claim C8, amended. A simulator constructed on at most 64 qubits is well formed and its
  indices are distinct; and from a well-formed state with distinct indices, each of
  \<^verbatim>\<open>applyGate\<close>, \<^verbatim>\<open>apply2QubitGate\<close> (unless it is CNOT with the same qubit as control and
  target), \<^verbatim>\<open>apply3QubitGate\<close>, \<^verbatim>\<open>measure\<close>, and \<^verbatim>\<open>run\<close> over a list with no such
  CNOT in it or in its bodies, returns a well-formed state with distinct indices, with
  or without a noise profile.
\<close>

theorem indices_stay_distinct:
  "(length qs \<le> 64 \<longrightarrow>
      wellFormed (Simulator A qs nm e) \<and> distinctIndices (Simulator A qs nm e)) \<and>
   (wellFormed s \<and> distinctIndices s \<longrightarrow>
      (applyGate A g q ps s = Inr s' \<longrightarrow> distinctIndices s' \<and> wellFormed s') \<and>
      (apply2QubitGate A g q1 q2 ps s = Inr s' \<and> \<not> (g = ''CNOT'' \<and> q1 = q2)
         \<longrightarrow> distinctIndices s' \<and> wellFormed s') \<and>
      (apply3QubitGate A g q1 q2 q3 ps s = Inr s' \<longrightarrow> distinctIndices s' \<and> wellFormed s') \<and>
      (measure_qubit A rnd q s = Inr (res, s') \<longrightarrow> distinctIndices s' \<and> wellFormed s') \<and>
      (list_all cnotOk ops \<and> run fuel A rnd ops s = Some (Inr s')
         \<longrightarrow> distinctIndices s' \<and> wellFormed s'))"
proof (intro conjI impI)
  assume "length qs \<le> 64"
  then show "wellFormed (Simulator A qs nm e)" by (rule Simulator_wellFormed)
  show "distinctIndices (Simulator A qs nm e)" by (rule Simulator_distinct)
next
  assume i: "wellFormed s \<and> distinctIndices s" and r: "applyGate A g q ps s = Inr s'"
  show "distinctIndices s'" using i r by (auto intro: applyGate_distinct)
  show "wellFormed s'" using i applyGate_frame [OF r] by (auto intro: frame_wellFormed)
next
  assume i: "wellFormed s \<and> distinctIndices s"
    and r: "apply2QubitGate A g q1 q2 ps s = Inr s' \<and> \<not> (g = ''CNOT'' \<and> q1 = q2)"
  show "distinctIndices s'" using i r by (auto intro: apply2QubitGate_distinct)
  show "wellFormed s'" using i apply2QubitGate_frame [OF r [THEN conjunct1]]
    by (auto intro: frame_wellFormed)
next
  assume i: "wellFormed s \<and> distinctIndices s" and r: "apply3QubitGate A g q1 q2 q3 ps s = Inr s'"
  show "distinctIndices s'" using i r by (auto intro: apply3QubitGate_distinct)
  show "wellFormed s'" using i apply3QubitGate_frame [OF r] by (auto intro: frame_wellFormed)
next
  assume i: "wellFormed s \<and> distinctIndices s" and r: "measure_qubit A rnd q s = Inr (res, s')"
  show "distinctIndices s'" using i r by (auto intro: measure_qubit_distinct)
  show "wellFormed s'" using i measure_qubit_frame [OF r] by (auto intro: frame_wellFormed)
next
  assume i: "wellFormed s \<and> distinctIndices s"
    and r: "list_all cnotOk ops \<and> run fuel A rnd ops s = Some (Inr s')"
  show "distinctIndices s'" using i r by (auto intro: run_distinct)
  show "wellFormed s'" using i run_config [OF r [THEN conjunct2]]
    by (auto intro: sameConfig_wellFormed)
qed

lemma bell_run:
  "run (Suc (Suc (Suc 0))) real_arith noDraws bellProgram sim2
     = Some (Inr (stateOf (run (Suc (Suc (Suc 0))) real_arith noDraws bellProgram sim2) sim2))"
  by (simp add: stateOf_def sim2_def bellProgram_def eval_defs real_sqrt_divide power_divide)

text \<open>The Bell program on two qubits runs, and its indices are distinct.\<close>

theorem indices_stay_distinct_witness:
  "length [0::nat, 1] \<le> 64 \<and> wellFormed sim2 \<and> distinctIndices sim2 \<and>
   list_all cnotOk bellProgram \<and>
   run (Suc (Suc (Suc 0))) real_arith noDraws bellProgram sim2 \<noteq> None \<and>
   distinctIndices (stateOf (run (Suc (Suc (Suc 0))) real_arith noDraws bellProgram sim2) sim2)"
proof -
  have l: "length [0::nat, 1] \<le> 64" by simp
  have ok: "list_all cnotOk bellProgram" by (simp add: bellProgram_def)
  note t = indices_stay_distinct [where qs = "[0::nat, 1]" and A = real_arith and nm = None
      and e = None and s = sim2 and ops = bellProgram and rnd = noDraws
      and fuel = "Suc (Suc (Suc 0))"
      and s' = "stateOf (run (Suc (Suc (Suc 0))) real_arith noDraws bellProgram sim2) sim2"]
  from t l have i: "wellFormed sim2 \<and> distinctIndices sim2" by (simp add: sim2_def)
  from t i ok bell_run
  have "distinctIndices (stateOf (run (Suc (Suc (Suc 0))) real_arith noDraws bellProgram sim2) sim2)"
    by blast
  with l i ok Some_not_None [OF bell_run] show ?thesis by blast
qed

text \<open>
  Without the proviso: \<^verbatim>\<open>run([H(q1), H(q0), CNOT([q0, q0])])\<close> on two qubits. The CNOT
  sends index 1 to 0 and index 3 to 2, both already met; \<^verbatim>\<open>#accumulate\<close> is called with
  \<^verbatim>\<open>nextCount++\<close> and so advances the count also on a collision, leaving a stale slot
  behind: the active indices end as 0, 2, 2.
\<close>

theorem indices_collide_counterexample:
  "(case run (Suc (Suc (Suc (Suc 0)))) real_arith noDraws cexProgram sim2 of
      Some (Inr s') \<Rightarrow> map (indices s') [0..<activeCount s']
    | _ \<Rightarrow> []) = [0, 2, 2]"
  by (simp add: sim2_def cexProgram_def eval_defs real_sqrt_divide power_divide)

section \<open>Names the catalog inherits\<close>

text \<open>
  A gate name that \<^verbatim>\<open>GATES\<close> only inherits is looked up like any other. Eight of them
  make the three gate functions throw; the other four give a value whose elements read
  as NaN (one of them as 0), and every amplitude the gate writes is pruned: the state is
  left with no active entry (here in exact arithmetic, where NaN stands as 0).
\<close>

lemma inherited_call_throws:
  assumes "g \<in> {''hasOwnProperty'', ''valueOf'', ''toLocaleString'', ''propertyIsEnumerable'',
               ''__defineGetter__'', ''__defineSetter__'', ''__lookupGetter__'',
               ''__lookupSetter__''}"
  shows "applyGate A g q ps s = Inl TypeError"
    and "apply2QubitGate A g q1 q2 ps s = Inl TypeError"
    and "apply3QubitGate A g q1 q2 q3 ps s = Inl TypeError"
proof -
  from assms have t: "GATES A g ps = Throws"
    by (elim insertE emptyE) (simp_all add: GATES_def Let_def)
  show "applyGate A g q ps s = Inl TypeError"
    by (simp add: applyGate_def t split: option.splits)
  show "apply2QubitGate A g q1 q2 ps s = Inl TypeError"
    by (simp add: apply2QubitGate_def t split: option.splits)
  show "apply3QubitGate A g q1 q2 q3 ps s = Inl TypeError"
    by (simp add: apply3QubitGate_def t split: option.splits)
qed

lemma inherited_value_empties:
  "(case applyGate real_arith ''toString'' 0 [] sim1 of Inr s \<Rightarrow> Some (activeCount s)
    | Inl e \<Rightarrow> None) = Some 0"
  "(case applyGate real_arith ''constructor'' 0 [] sim1 of Inr s \<Rightarrow> Some (activeCount s)
    | Inl e \<Rightarrow> None) = Some 0"
  "(case applyGate real_arith ''isPrototypeOf'' 0 [] sim1 of Inr s \<Rightarrow> Some (activeCount s)
    | Inl e \<Rightarrow> None) = Some 0"
  "(case applyGate real_arith ''__proto__'' 0 [] sim1 of Inr s \<Rightarrow> Some (activeCount s)
    | Inl e \<Rightarrow> None) = Some 0"
  by (simp_all add: sim1_def eval_defs)

section \<open>Operations that always return\<close>

lemma bitOf_Some: "qubitMap s q \<noteq> None \<Longrightarrow> \<exists>b. bitOf s q = Some b"
  by (auto simp: bitOf_def)

lemma frame_mapped: "frame s s' \<Longrightarrow> qubitMap s q \<noteq> None \<Longrightarrow> qubitMap s' q \<noteq> None"
  by (simp add: frame_def)

lemma getProb1_total: "qubitMap s q \<noteq> None \<Longrightarrow> \<exists>p. getProb1 A q s = Inr p"
  by (auto simp: getProb1_def bitOf_def)

lemma collapse_total: "qubitMap s q \<noteq> None \<Longrightarrow> \<exists>s'. collapse A q r p s = Inr s'"
  by (auto simp: collapse_def bitOf_def Let_def)

lemma measure_qubit_total:
  assumes "qubitMap s q \<noteq> None"
  shows "\<exists>r s'. measure_qubit A rnd q s = Inr (r, s')"
proof -
  from getProb1_total [OF assms] obtain p where p: "getProb1 A q s = Inr p" by blast
  have c: "\<And>r p' n. \<exists>s'. collapse A q r p' (s\<lparr> draws := n \<rparr>) = Inr s'"
    using assms by (intro collapse_total) simp
  show ?thesis
  proof (cases "noiseModel s")
    case None
    from c [of "if flt A (rnd (draws s)) p then 1 else 0" p "draws s + 1"]
    show ?thesis using p None by (auto simp: measure_qubit_def Let_def)
  next
    case (Some nm)
    let ?p = "if flt A (rnd (draws s)) (readoutError nm) then fsub A (fnum A 1) p else p"
    from c [of "if flt A (rnd (draws s + 1)) ?p then 1 else 0" ?p "draws s + 1 + 1"]
    show ?thesis using p Some by (auto simp: measure_qubit_def Let_def)
  qed
qed

lemma applyGate_total:
  "qubitMap s q \<noteq> None \<Longrightarrow> GATES A g ps = Entries m \<Longrightarrow> \<exists>s'. applyGate A g q ps s = Inr s'"
  by (auto simp: applyGate_def bitOf_def)

lemma GATES_X: "\<exists>m. GATES A ''X'' ps = Entries m" by (simp add: GATES_def Let_def)

lemma runReset_total:
  assumes "qubitMap s q \<noteq> None"
  shows "\<exists>s'. runReset A rnd q s = Inr s'"
proof -
  from measure_qubit_total [OF assms] obtain r s1 where m: "measure_qubit A rnd q s = Inr (r, s1)"
    by blast
  from measure_qubit_frame [OF m] assms have q1: "qubitMap s1 q \<noteq> None"
    by (simp add: frame_def)
  from GATES_X obtain mx where g: "GATES A ''X'' [] = Entries mx" by blast
  from applyGate_total [OF q1 g] obtain s2 where "applyGate A ''X'' q [] s1 = Inr s2"
    by blast
  with m show ?thesis by (simp add: runReset_def)
qed

lemma dampingStep_total:
  assumes "qubitMap s q \<noteq> None"
  shows "\<exists>s'. dampingStep A rnd nm q b s = Inr s'"
proof -
  from getProb1_total [OF assms] obtain p where p: "getProb1 A q s = Inr p" by blast
  have "qubitMap (s\<lparr> draws := draws s + 1 \<rparr>) q \<noteq> None" using assms by simp
  from collapse_total [OF this] obtain s2
    where "collapse A q 1 p (s\<lparr> draws := draws s + 1 \<rparr>) = Inr s2" by blast
  with p show ?thesis by (simp add: dampingStep_def Let_def)
qed

lemma noiseOnQubit_total:
  assumes "qubitMap s q \<noteq> None"
  shows "\<exists>s'. noiseOnQubit A rnd nm (Some q) s = Inr s'"
proof -
  from bitOf_Some [OF assms] obtain b where b: "bitOf s q = Some b" by blast
  have "frame s (phaseFlipStep A rnd nm b (bitFlipStep A rnd nm b s))"
    by (rule frame_trans [OF bitFlipStep_frame phaseFlipStep_frame])
  then have "qubitMap (phaseFlipStep A rnd nm b (bitFlipStep A rnd nm b s)) q \<noteq> None"
    using assms by (simp add: frame_def)
  from dampingStep_total [OF this] b show ?thesis by (simp add: noiseOnQubit_def)
qed

lemma noiseLoop_total:
  "list_all (\<lambda>t. case t of None \<Rightarrow> False | Some q \<Rightarrow> qubitMap s q \<noteq> None) ts \<Longrightarrow>
   \<exists>s'. noiseLoop A rnd nm ts s = Inr s'"
proof (induction ts arbitrary: s)
  case Nil
  then show ?case by simp
next
  case (Cons t ts)
  from Cons.prems obtain q where t: "t = Some q" and m: "qubitMap s q \<noteq> None"
    by (cases t) simp_all
  from noiseOnQubit_total [OF m] obtain s1 where s1: "noiseOnQubit A rnd nm (Some q) s = Inr s1"
    by blast
  from noiseOnQubit_frame [OF s1] have "qubitMap s1 = qubitMap s" by (simp add: frame_def)
  then have q1: "qubitMap s1 = qubitMap s" .
  have "list_all (\<lambda>t. case t of None \<Rightarrow> False | Some q \<Rightarrow> qubitMap s1 q \<noteq> None) ts"
    unfolding q1 using Cons.prems by simp
  from Cons.IH [OF this] obtain s' where "noiseLoop A rnd nm ts s1 = Inr s'" by blast
  with t s1 show ?case by simp
qed

lemma noiseAfterGate_total:
  assumes "list_all (\<lambda>t. case t of None \<Rightarrow> False | Some q \<Rightarrow> qubitMap s q \<noteq> None) (qubitsOf qs)"
  shows "\<exists>s'. noiseAfterGate A rnd qs s = Inr s'"
proof (cases "noiseModel s")
  case None
  then show ?thesis by (simp add: noiseAfterGate_def)
next
  case (Some nm)
  from noiseLoop_total [OF assms] obtain s1 where "noiseLoop A rnd nm (qubitsOf qs) s = Inr s1"
    by blast
  with Some show ?thesis by (simp add: noiseAfterGate_def applyStochasticNoise_def)
qed

lemma GATES_CCX: "\<exists>m. GATES A ''CCX'' ps = Entries m" by (simp add: GATES_def Let_def)

lemma GATES_RZZ: "\<exists>m. GATES A ''RZZ'' ps = Entries m" by (simp add: GATES_def Let_def)

lemma runOp_CCX_total:
  assumes "qubitMap s q \<noteq> None"
  shows "\<exists>s'. runOp A rnd (Instr ''CCX'' (Tuple q q [q]) ps c b t) s = Inr s'"
proof -
  from bitOf_Some [OF assms] obtain bt where bt: "bitOf s q = Some bt" by blast
  from GATES_CCX obtain m where m: "GATES A ''CCX'' ps = Entries m" by blast
  let ?s1 = "scatterGate A 8 (apply3Entry A bt bt bt m) s"
  have a: "apply3QubitGate A ''CCX'' q q q ps s = Inr ?s1"
    by (simp add: apply3QubitGate_def bt m)
  from apply3QubitGate_frame [OF a] assms have "qubitMap ?s1 q \<noteq> None"
    by (simp add: frame_def)
  then have "list_all (\<lambda>t. case t of None \<Rightarrow> False | Some q \<Rightarrow> qubitMap ?s1 q \<noteq> None)
               (qubitsOf (Tuple q q [q]))"
    by (simp add: qubitsOf_def)
  from noiseAfterGate_total [OF this] obtain s'
    where "noiseAfterGate A rnd (Tuple q q [q]) ?s1 = Inr s'" by blast
  with a show ?thesis by (simp add: runOp_def)
qed

lemma runOp_RZZ_total:
  assumes "qubitMap s q \<noteq> None"
  shows "\<exists>s'. runOp A rnd (Instr ''RZZ'' (Tuple q q []) ps c b t) s = Inr s'"
proof -
  from bitOf_Some [OF assms] obtain bt where bt: "bitOf s q = Some bt" by blast
  from GATES_RZZ obtain m where m: "GATES A ''RZZ'' ps = Entries m" by blast
  let ?s1 = "scatterGate A 4 (apply2Entry A ''RZZ'' bt bt m) s"
  have a: "apply2QubitGate A ''RZZ'' q q ps s = Inr ?s1"
    by (simp add: apply2QubitGate_def bt m)
  from apply2QubitGate_frame [OF a] assms have "qubitMap ?s1 q \<noteq> None"
    by (simp add: frame_def)
  then have "list_all (\<lambda>t. case t of None \<Rightarrow> False | Some q \<Rightarrow> qubitMap ?s1 q \<noteq> None)
               (qubitsOf (Tuple q q []))"
    by (simp add: qubitsOf_def)
  from noiseAfterGate_total [OF this] obtain s'
    where "noiseAfterGate A rnd (Tuple q q []) ?s1 = Inr s'" by blast
  with a show ?thesis by (simp add: runOp_def)
qed

lemma compile_multi:
  assumes "g \<notin> {''RX'', ''RY'', ''RZ'', ''U3'', ''H'', ''X'', ''Y'', ''Z'', ''SWAP'', ''CZ''}"
  shows "compile A [Instr g (Tuple a b rest) ps c bd t] = Inr [Instr g (Tuple a b rest) ps c bd t]"
proof -
  have ni: "\<not> isIdentity A (Instr g (Tuple a b rest) ps c bd t)"
    using assms by (simp add: isIdentity_def)
  have p: "Optimizer_prune A [Instr g (Tuple a b rest) ps c bd t]
            = Inr [Instr g (Tuple a b rest) ps c bd t]"
    using ni by (simp add: Optimizer_prune_def pruneStep_def findCommutingPartner_def
        qubitsOf_def pushOp_def Let_def)
  have t: "transpile A [Instr g (Tuple a b rest) ps c bd t]
            = Inr [Instr g (Tuple a b rest) ps c bd t]"
    using assms by (simp add: transpile_def decompose_def)
  show ?thesis by (simp add: compile_def p t)
qed

section \<open>RESET inside run\<close>

text \<open>
  Claim C1, amended. A RESET on \<open>q\<close> at the head of what \<^verbatim>\<open>run\<close> has left to do is a
  measure of \<open>q\<close>, then X on \<open>q\<close> if the result was 1, then a prune, and nothing else:
  the noise channel is not entered (the only random draws are those of the measure, one
  without a noise profile and two with one), and the result cache is left as it was,
  the sampled outcome is not stored. On a qubit the simulator knows the RESET returns.
\<close>

theorem reset_leaves_cache_and_skips_noise:
  "run (Suc fuel) A rnd (Instr ''RESET'' (Single q) ps c b t # rest) s =
     (case measure_qubit A rnd q s of
        Inl e \<Rightarrow> Some (Inl e)
      | Inr (res, s1) \<Rightarrow>
          if res = 1 then
            (case applyGate A ''X'' q [] s1 of
               Inl e \<Rightarrow> Some (Inl e)
             | Inr s2 \<Rightarrow> run fuel A rnd rest (sim_prune A s2))
          else run fuel A rnd rest (sim_prune A s1)) \<and>
   (run (Suc (Suc fuel)) A rnd [Instr ''RESET'' (Single q) ps c b t] s = Some (Inr s') \<longrightarrow>
      results s' = results s \<and>
      draws s' = draws s + (case noiseModel s of None \<Rightarrow> 1 | Some nm \<Rightarrow> 2)) \<and>
   (qubitMap s q \<noteq> None \<longrightarrow>
      (\<exists>s'. run (Suc (Suc fuel)) A rnd [Instr ''RESET'' (Single q) ps c b t] s = Some (Inr s')))"
proof (intro conjI impI)
  show "run (Suc fuel) A rnd (Instr ''RESET'' (Single q) ps c b t # rest) s =
     (case measure_qubit A rnd q s of
        Inl e \<Rightarrow> Some (Inl e)
      | Inr (res, s1) \<Rightarrow>
          if res = 1 then
            (case applyGate A ''X'' q [] s1 of
               Inl e \<Rightarrow> Some (Inl e)
             | Inr s2 \<Rightarrow> run fuel A rnd rest (sim_prune A s2))
          else run fuel A rnd rest (sim_prune A s1))"
    by (simp add: runOp_def runReset_def split: sum.splits prod.splits)
  have e: "run (Suc (Suc fuel)) A rnd [Instr ''RESET'' (Single q) ps c b t] s
            = Some (runReset A rnd q s)"
    by (cases "runReset A rnd q s") (simp_all add: runOp_def)
  {
    assume "run (Suc (Suc fuel)) A rnd [Instr ''RESET'' (Single q) ps c b t] s = Some (Inr s')"
    then have r: "runReset A rnd q s = Inr s'" unfolding e by simp
    from runReset_frame [OF r] show "results s' = results s"
      and "draws s' = draws s + (case noiseModel s of None \<Rightarrow> 1 | Some nm \<Rightarrow> 2)"
      by (simp_all add: frame_def)
  }
  {
    assume "qubitMap s q \<noteq> None"
    from runReset_total [OF this] obtain s1 where "runReset A rnd q s = Inr s1" by blast
    then show "\<exists>s'. run (Suc (Suc fuel)) A rnd [Instr ''RESET'' (Single q) ps c b t] s
                  = Some (Inr s')"
      unfolding e by simp
  }
qed

lemma sim1_reset:
  "run (Suc (Suc 0)) real_arith noDraws [Instr ''RESET'' (Single 0) [] None None None] sim1
     = Some (Inr (stateOf (run (Suc (Suc 0)) real_arith noDraws
                    [Instr ''RESET'' (Single 0) [] None None None] sim1) sim1))"
  by (simp add: stateOf_def sim1_def eval_defs noDraws_def)

text \<open>A RESET on the one qubit of a fresh simulator.\<close>

theorem reset_leaves_cache_and_skips_noise_witness:
  "qubitMap sim1 0 \<noteq> None \<and>
   run (Suc (Suc 0)) real_arith noDraws [Instr ''RESET'' (Single 0) [] None None None] sim1 \<noteq> None \<and>
   results (stateOf (run (Suc (Suc 0)) real_arith noDraws
              [Instr ''RESET'' (Single 0) [] None None None] sim1) sim1) = results sim1 \<and>
   draws (stateOf (run (Suc (Suc 0)) real_arith noDraws
              [Instr ''RESET'' (Single 0) [] None None None] sim1) sim1) = draws sim1 + 1"
proof -
  have m: "qubitMap sim1 0 \<noteq> None" by (simp add: sim1_def Simulator_def)
  have n: "noiseModel sim1 = None" by (simp add: sim1_def Simulator_def)
  note t = reset_leaves_cache_and_skips_noise [where A = real_arith and rnd = noDraws
      and q = "0::nat" and ps = "[]" and c = None and b = None and t = None and s = sim1
      and fuel = 0 and rest = "[]"
      and s' = "stateOf (run (Suc (Suc 0)) real_arith noDraws
                    [Instr ''RESET'' (Single 0) [] None None None] sim1) sim1"]
  from t sim1_reset
  have "results (stateOf (run (Suc (Suc 0)) real_arith noDraws
              [Instr ''RESET'' (Single 0) [] None None None] sim1) sim1) = results sim1"
    and "draws (stateOf (run (Suc (Suc 0)) real_arith noDraws
              [Instr ''RESET'' (Single 0) [] None None None] sim1) sim1)
          = draws sim1 + (case noiseModel sim1 of None \<Rightarrow> 1 | Some nm \<Rightarrow> 2)"
    by blast+
  with m n Some_not_None [OF sim1_reset] show ?thesis by simp
qed

text \<open>
  The claim has the cache updated to the sampled outcome. On a fresh simulator the
  measure inside the RESET samples 0, and after the run the cache has no result for the
  qubit: an IF or WHILE on it with value 0 does not fire.
\<close>

theorem reset_cache_counterexample:
  "(case measure_qubit real_arith noDraws 0 sim1 of Inl e \<Rightarrow> None | Inr (res, s1) \<Rightarrow> Some res)
     = Some 0 \<and>
   (case run (Suc (Suc 0)) real_arith noDraws [Instr ''RESET'' (Single 0) [] None None None] sim1 of
      Some (Inr s') \<Rightarrow> Some (getResult s' 0)
    | _ \<Rightarrow> None) = Some None"
  by (simp add: sim1_def eval_defs noDraws_def)

section \<open>The zero test and its tolerance\<close>

text \<open>
  Claim C5, amended. \<^verbatim>\<open>isZero(q)\<close> is true iff the summed probability of \<open>q\<close> being 1 is
  strictly below the effective epsilon. For a simulator as constructed, and after any
  run of it, the effective epsilon is the override when one was given and is truthy
  (not 0, not NaN), and otherwise, also for an override equal to 0, it is
  \<open>1e-15 * max(1, activeCount / 5000) * 100\<close>.
\<close>

theorem isZero_and_effective_epsilon:
  "(qubitMap s q \<noteq> None \<longrightarrow>
      (case getProb1 A q s of
         Inl e \<Rightarrow> False
       | Inr p \<Rightarrow> isZero A q s = Inr (flt A p (getEffectiveEpsilon A s)))) \<and>
   (run fuel A rnd ops (Simulator A qs nm opt) = Some (Inr s') \<or> s' = Simulator A qs nm opt \<longrightarrow>
      getEffectiveEpsilon A s' =
        (case opt of
           Some e \<Rightarrow>
             if ftruthy A e then e
             else fmul A (fmul A (f1e_15 A)
                    (fmax A (fnum A 1) (fdiv A (fnum A (int (activeCount s'))) (fnum A 5000))))
                    (fnum A 100)
         | None \<Rightarrow>
             fmul A (fmul A (f1e_15 A)
               (fmax A (fnum A 1) (fdiv A (fnum A (int (activeCount s'))) (fnum A 5000))))
               (fnum A 100)))"
proof (intro conjI impI)
  assume "qubitMap s q \<noteq> None"
  from getProb1_total [OF this] obtain p where "getProb1 A q s = Inr p" by blast
  then show "case getProb1 A q s of
         Inl e \<Rightarrow> False
       | Inr p \<Rightarrow> isZero A q s = Inr (flt A p (getEffectiveEpsilon A s))"
    by (simp add: isZero_def)
next
  assume "run fuel A rnd ops (Simulator A qs nm opt) = Some (Inr s') \<or> s' = Simulator A qs nm opt"
  then have "epsilon s' = epsilon (Simulator A qs nm opt)"
    using run_config [of fuel A rnd ops "Simulator A qs nm opt" s']
    by (auto simp: sameConfig_def)
  then have "epsilon s' = (case opt of None \<Rightarrow> None
                           | Some e \<Rightarrow> if ftruthy A e then Some e else None)"
    by (simp add: Simulator_def)
  then show "getEffectiveEpsilon A s' =
        (case opt of
           Some e \<Rightarrow>
             if ftruthy A e then e
             else fmul A (fmul A (f1e_15 A)
                    (fmax A (fnum A 1) (fdiv A (fnum A (int (activeCount s'))) (fnum A 5000))))
                    (fnum A 100)
         | None \<Rightarrow>
             fmul A (fmul A (f1e_15 A)
               (fmax A (fnum A 1) (fdiv A (fnum A (int (activeCount s'))) (fnum A 5000))))
               (fnum A 100))"
    by (simp add: getEffectiveEpsilon_def currentPruneThreshold_def memoryBudget_def
        split: option.splits)
qed

text \<open>One qubit, override \<open>1/1000\<close>: the qubit is zero and the epsilon is the override.\<close>

theorem isZero_and_effective_epsilon_witness:
  "qubitMap (Simulator real_arith [0::nat] None (Some (1 / 1000))) 0 \<noteq> None \<and>
   isZero real_arith 0 (Simulator real_arith [0::nat] None (Some (1 / 1000))) = Inr True \<and>
   getEffectiveEpsilon real_arith (Simulator real_arith [0::nat] None (Some (1 / 1000))) = 1 / 1000"
proof -
  have m: "qubitMap (Simulator real_arith [0::nat] None (Some (1 / 1000))) 0 \<noteq> None"
    by (simp add: Simulator_def)
  have p: "getProb1 real_arith 0 (Simulator real_arith [0::nat] None (Some (1 / 1000))) = Inr 0"
    by (simp add: eval_defs)
  note t = isZero_and_effective_epsilon [where A = real_arith and q = "0::nat"
      and s = "Simulator real_arith [0::nat] None (Some (1 / 1000))" and qs = "[0::nat]"
      and nm = None and opt = "Some (1 / 1000)"
      and s' = "Simulator real_arith [0::nat] None (Some (1 / 1000))"]
  from t m p show ?thesis by simp
qed

text \<open>
  The claim has an override equal to 0 kept. The constructor reads it with
  \<^verbatim>\<open>options.epsilon || null\<close>: the effective epsilon is then \<open>1e-13\<close>, not 0.
\<close>

theorem zero_override_counterexample:
  "getEffectiveEpsilon real_arith (Simulator real_arith [0::nat] None (Some 0)) = 1 / 10 ^ 13"
  by (simp add: getEffectiveEpsilon_def currentPruneThreshold_def Simulator_def memoryBudget_def)

section \<open>Repeated qubits in CCX and RZZ\<close>

text \<open>
  Claim C10. For an allocated handle \<open>q\<close>, \<^verbatim>\<open>ccx(q, q, q)\<close> and \<^verbatim>\<open>rzz(q, q, theta)\<close> do not
  throw and append their instruction, while \<^verbatim>\<open>cnot(q, q)\<close>, \<^verbatim>\<open>cz(q, q)\<close> and
  \<^verbatim>\<open>swap(q, q)\<close> throw and append nothing; the compiler hands the CCX and the RZZ on as
  they are, and \<^verbatim>\<open>run\<close> executes them on a qubit the simulator knows without an error.
\<close>

theorem ccx_rzz_accept_repeated_qubits:
  "(isAllocated registry q \<longrightarrow>
      (ops_ccx registry now q q q circuit :: ('q, 'x) thrown option \<times> ('q, 'a) circuit)
        = (None, circuit @ [Instr ''CCX'' (Tuple q q [q]) [] None None (Some now)]) \<and>
      (ops_rzz registry now q q theta circuit :: ('q, 'x) thrown option \<times> ('q, 'a) circuit)
        = (None, circuit @ [Instr ''RZZ'' (Tuple q q []) [theta] None None (Some now)]) \<and>
      (ops_cnot registry now q q circuit :: ('q, 'x) thrown option \<times> ('q, 'a) circuit)
        = (Some (Own (PhysicsSelfControl q)), circuit) \<and>
      (ops_cz registry now q q circuit :: ('q, 'x) thrown option \<times> ('q, 'a) circuit)
        = (Some (Own (PhysicsSelfControl q)), circuit) \<and>
      (ops_swap registry now q q circuit :: ('q, 'x) thrown option \<times> ('q, 'a) circuit)
        = (Some (Own UsageSelfSwap), circuit)) \<and>
   compile A [Instr ''CCX'' (Tuple q q [q]) [] None None (Some now)]
     = Inr [Instr ''CCX'' (Tuple q q [q]) [] None None (Some now)] \<and>
   compile A [Instr ''RZZ'' (Tuple q q []) [theta] None None (Some now)]
     = Inr [Instr ''RZZ'' (Tuple q q []) [theta] None None (Some now)] \<and>
   (qubitMap s q \<noteq> None \<longrightarrow>
      (\<exists>s'. run (Suc (Suc fuel)) A rnd [Instr ''CCX'' (Tuple q q [q]) [] None None (Some now)] s
               = Some (Inr s')) \<and>
      (\<exists>s'. run (Suc (Suc fuel)) A rnd [Instr ''RZZ'' (Tuple q q []) [theta] None None (Some now)] s
               = Some (Inr s')))"
proof (intro conjI impI)
  assume a: "isAllocated registry q"
  show "ops_ccx registry now q q q circuit
        = (None, circuit @ [Instr ''CCX'' (Tuple q q [q]) [] None None (Some now)])"
    using a by (simp add: ops_ccx_def validate_def addOp_def)
  show "ops_rzz registry now q q theta circuit
        = (None, circuit @ [Instr ''RZZ'' (Tuple q q []) [theta] None None (Some now)])"
    using a by (simp add: ops_rzz_def validate_def addOp_def)
  show "ops_cnot registry now q q circuit = (Some (Own (PhysicsSelfControl q)), circuit)"
    using a by (simp add: ops_cnot_def validate_def)
  show "ops_cz registry now q q circuit = (Some (Own (PhysicsSelfControl q)), circuit)"
    using a by (simp add: ops_cz_def validate_def)
  show "ops_swap registry now q q circuit = (Some (Own UsageSelfSwap), circuit)"
    using a by (simp add: ops_swap_def validate_def)
next
  show "compile A [Instr ''CCX'' (Tuple q q [q]) [] None None (Some now)]
     = Inr [Instr ''CCX'' (Tuple q q [q]) [] None None (Some now)]"
    by (rule compile_multi) simp
  show "compile A [Instr ''RZZ'' (Tuple q q []) [theta] None None (Some now)]
     = Inr [Instr ''RZZ'' (Tuple q q []) [theta] None None (Some now)]"
    by (rule compile_multi) simp
next
  assume m: "qubitMap s q \<noteq> None"
  from runOp_CCX_total [OF m] obtain s1
    where "runOp A rnd (Instr ''CCX'' (Tuple q q [q]) [] None None (Some now)) s = Inr s1"
    by blast
  then show "\<exists>s'. run (Suc (Suc fuel)) A rnd
                [Instr ''CCX'' (Tuple q q [q]) [] None None (Some now)] s = Some (Inr s')"
    by simp
  from runOp_RZZ_total [OF m] obtain s2
    where "runOp A rnd (Instr ''RZZ'' (Tuple q q []) [theta] None None (Some now)) s = Inr s2"
    by blast
  then show "\<exists>s'. run (Suc (Suc fuel)) A rnd
                [Instr ''RZZ'' (Tuple q q []) [theta] None None (Some now)] s = Some (Inr s')"
    by simp
qed

text \<open>Handle 0, allocated and known to the one-qubit simulator.\<close>

theorem ccx_rzz_accept_repeated_qubits_witness:
  "isAllocated {0::nat} 0 \<and>
   (ops_ccx {0::nat} 7 0 0 0 [] :: (nat, unit) thrown option \<times> (nat, real) circuit)
     = (None, [Instr ''CCX'' (Tuple 0 0 [0]) [] None None (Some 7)]) \<and>
   (ops_cnot {0::nat} 7 0 0 [] :: (nat, unit) thrown option \<times> (nat, real) circuit)
     = (Some (Own (PhysicsSelfControl 0)), []) \<and>
   qubitMap sim1 0 \<noteq> None \<and>
   (\<exists>s'. run (Suc (Suc 0)) real_arith noDraws
            [Instr ''CCX'' (Tuple 0 0 [0]) [] None None (Some 7)] sim1 = Some (Inr s'))"
proof -
  have a: "isAllocated {0::nat} 0" by (simp add: isAllocated_def)
  have m: "qubitMap sim1 0 \<noteq> None" by (simp add: sim1_def Simulator_def)
  note t = ccx_rzz_accept_repeated_qubits [where 'x = unit and registry = "{0::nat}" and q = 0 and now = 7
      and circuit = "[]" and theta = "0::real" and A = real_arith and s = sim1 and fuel = 0
      and rnd = noDraws]
  from t a m show ?thesis by simp
qed

section \<open>Saturated gate error\<close>

lemma u3_not_identity:
  "arithAtX A \<Longrightarrow> \<not> isIdentity A (Instr ''U3'' qr [fpi A, fnum A 0, fpi A] c b t)"
  by (simp add: isIdentity_def arithAtX_def)

lemma isIdentity_no_params: "\<not> isIdentity A (Instr g qr [] c b t)"
  by (simp add: isIdentity_def)

lemma canCommute_no_rule:
  "g \<notin> {''Z'', ''S'', ''T'', ''RZ'', ''X'', ''RX'', ''CNOT'', ''CZ''} \<Longrightarrow>
   canCommute (Instr g (Single q) ps c b t) (Instr g' (Single q) ps' c' b' t') = Inr False"
  "g' \<notin> {''Z'', ''S'', ''T'', ''RZ'', ''X'', ''RX'', ''CNOT'', ''CZ''} \<Longrightarrow>
   canCommute (Instr g (Single q) ps c b t) (Instr g' (Single q) ps' c' b' t') = Inr False"
  by (auto simp: canCommute_def qubitsOf_def COMMUTATION_RULES_def)

lemma compile_xThenMeasure:
  assumes "arithAtX A"
  shows "compile A (xThenMeasure q tx tm)
     = Inr [Instr ''U3'' (Single q) [fpi A, fnum A 0, fpi A] None None None,
            Instr ''MEASURE'' (Single q) [] None None (Some tm)]"
proof -
  have p1: "Optimizer_prune A (xThenMeasure q tx tm) = Inr (xThenMeasure q tx tm)"
    by (simp add: xThenMeasure_def addOp_def Optimizer_prune_def pruneStep_def
        isIdentity_no_params findCommutingPartner_def qubitsOf_def pushOp_def wireOf_def
        slotAt_def areQubitsEqual_def canCommute_no_rule Let_def)
  have t: "transpile A (xThenMeasure q tx tm)
      = Inr [Instr ''U3'' (Single q) [fpi A, fnum A 0, fpi A] None None None,
             Instr ''MEASURE'' (Single q) [] None None (Some tm)]"
    by (simp add: xThenMeasure_def addOp_def transpile_def decompose_def mkU3_def)
  have p2: "Optimizer_prune A
       [Instr ''U3'' (Single q) [fpi A, fnum A 0, fpi A] None None None,
        Instr ''MEASURE'' (Single q) [] None None (Some tm)]
     = Inr [Instr ''U3'' (Single q) [fpi A, fnum A 0, fpi A] None None None,
            Instr ''MEASURE'' (Single q) [] None None (Some tm)]"
    by (simp add: Optimizer_prune_def pruneStep_def u3_not_identity [OF assms]
        isIdentity_no_params findCommutingPartner_def qubitsOf_def pushOp_def wireOf_def
        slotAt_def areQubitsEqual_def canCommute_no_rule Let_def)
  show ?thesis by (simp add: compile_def p1 t p2)
qed

text \<open>
  The gate takes the one active index from 0 to 1 (the residue on index 0 is pruned);
  the noise after it draws twice, for the bit flip and for the phase flip, and the bit
  flip takes the index back to 0.
\<close>

lemma gate_then_noise:
  assumes "arithAtX A" "unitDraws A rnd"
  shows "\<exists>s1 s2.
      applyGate A ''U3'' q [fpi A, fnum A 0, fpi A]
        (Simulator A [q] (Some (gateErrorOnly A)) None) = Inr s1 \<and>
      map (indices s1) [0..<activeCount s1] = [1] \<and>
      noiseAfterGate A rnd (Single q) s1 = Inr s2 \<and>
      map (indices s2) [0..<activeCount s2] = [0] \<and>
      draws s2 = draws s1 + 2"
  using assms unfolding arithAtX_def xOnZero_def thresholdAt_def unitDraws_def
  by (simp add: eval_defs halfPi_def gateErrorOnly_def)

lemma run_noisy:
  assumes "arithAtX A" "unitDraws A rnd"
  shows "\<exists>s'. run (Suc (Suc (Suc fuel))) A rnd
       [Instr ''U3'' (Single q) [fpi A, fnum A 0, fpi A] None None None,
        Instr ''MEASURE'' (Single q) [] None None (Some tm)]
       (Simulator A [q] (Some (gateErrorOnly A)) None) = Some (Inr s') \<and>
       getResult s' q = Some 0"
  using assms unfolding arithAtX_def xOnZero_def thresholdAt_def unitDraws_def
  by (simp add: eval_defs halfPi_def gateErrorOnly_def)

lemma run_quiet:
  assumes "arithAtX A" "unitDraws A rnd"
  shows "\<exists>s'. run (Suc (Suc (Suc fuel))) A rnd
       [Instr ''U3'' (Single q) [fpi A, fnum A 0, fpi A] None None None,
        Instr ''MEASURE'' (Single q) [] None None (Some tm)]
       (Simulator A [q] None None) = Some (Inr s') \<and>
       getResult s' q = Some 1"
  using assms unfolding arithAtX_def xOnZero_def thresholdAt_def unitDraws_def
  by (simp add: eval_defs halfPi_def)

lemma flush_result:
  assumes "compile A (getInstructions circ) = Inr ops"
    and "run fuel A rnd ops s = Some (Inr s')"
    and "getResult s' q = Some r"
  shows "map_option (map_sum id fst) (flush fuel A rnd (Some q) (s, circ)) = Some (Inr (Some r))"
  using assms by (simp add: flush_def)

lemma real_arithAtX: "arithAtX real_arith"
proof -
  have "real_rem pi (2 * pi) = pi" by (rule real_rem_small) simp_all
  moreover have "\<not> pi * 10000000000 < 1" using pi_ge_two by linarith
  ultimately show ?thesis
    by (simp add: arithAtX_def xOnZero_def thresholdAt_def twoPi_def halfPi_def
        sqMagnitude_def)
qed

text \<open>
  Claim C6. Noise profile: gate error 1, the other three 0. One qubit, X then measure,
  through the recorder buffer, the compiler and \<^verbatim>\<open>run\<close>, in every arithmetic that meets
  \<open>arithAtX\<close> and for every sequence of draws in \<open>[0, 1)\<close>. The X reaches the simulator
  as \<^verbatim>\<open>U3(pi, 0, pi)\<close>; the gate takes the active index from 0 to 1; the noise after it
  makes its two draws and its bit flip takes the index back to 0; and the flush returns
  0 for the measured qubit. The same buffer flushed on a simulator without a noise
  profile returns 1: it is the flip that undoes the X.
\<close>

theorem saturated_gate_error_undoes_x:
  "arithAtX A \<and> unitDraws A rnd \<longrightarrow>
   compile A (xThenMeasure q tx tm)
     = Inr [Instr ''U3'' (Single q) [fpi A, fnum A 0, fpi A] None None None,
            Instr ''MEASURE'' (Single q) [] None None (Some tm)] \<and>
   (\<exists>s1 s2.
      applyGate A ''U3'' q [fpi A, fnum A 0, fpi A]
        (Simulator A [q] (Some (gateErrorOnly A)) None) = Inr s1 \<and>
      map (indices s1) [0..<activeCount s1] = [1] \<and>
      noiseAfterGate A rnd (Single q) s1 = Inr s2 \<and>
      map (indices s2) [0..<activeCount s2] = [0] \<and>
      draws s2 = draws s1 + 2) \<and>
   map_option (map_sum id fst)
     (flush (Suc (Suc (Suc fuel))) A rnd (Some q)
        (Simulator A [q] (Some (gateErrorOnly A)) None, xThenMeasure q tx tm))
     = Some (Inr (Some 0)) \<and>
   map_option (map_sum id fst)
     (flush (Suc (Suc (Suc fuel))) A rnd (Some q)
        (Simulator A [q] None None, xThenMeasure q tx tm))
     = Some (Inr (Some 1))"
proof (intro impI conjI)
  assume h: "arithAtX A \<and> unitDraws A rnd"
  then have a: "arithAtX A" and u: "unitDraws A rnd" by simp_all
  have c: "compile A (getInstructions (xThenMeasure q tx tm))
     = Inr [Instr ''U3'' (Single q) [fpi A, fnum A 0, fpi A] None None None,
            Instr ''MEASURE'' (Single q) [] None None (Some tm)]"
    unfolding getInstructions_def by (rule compile_xThenMeasure [OF a])
  then show "compile A (xThenMeasure q tx tm)
     = Inr [Instr ''U3'' (Single q) [fpi A, fnum A 0, fpi A] None None None,
            Instr ''MEASURE'' (Single q) [] None None (Some tm)]"
    unfolding getInstructions_def .
  show "\<exists>s1 s2.
      applyGate A ''U3'' q [fpi A, fnum A 0, fpi A]
        (Simulator A [q] (Some (gateErrorOnly A)) None) = Inr s1 \<and>
      map (indices s1) [0..<activeCount s1] = [1] \<and>
      noiseAfterGate A rnd (Single q) s1 = Inr s2 \<and>
      map (indices s2) [0..<activeCount s2] = [0] \<and>
      draws s2 = draws s1 + 2"
    by (rule gate_then_noise [OF a u])
  from run_noisy [OF a u, where fuel = fuel and q = q and tm = tm] obtain s'
    where "run (Suc (Suc (Suc fuel))) A rnd
       [Instr ''U3'' (Single q) [fpi A, fnum A 0, fpi A] None None None,
        Instr ''MEASURE'' (Single q) [] None None (Some tm)]
       (Simulator A [q] (Some (gateErrorOnly A)) None) = Some (Inr s')"
      and "getResult s' q = Some 0"
    by blast
  then show "map_option (map_sum id fst)
     (flush (Suc (Suc (Suc fuel))) A rnd (Some q)
        (Simulator A [q] (Some (gateErrorOnly A)) None, xThenMeasure q tx tm))
     = Some (Inr (Some 0))"
    by (rule flush_result [OF c])
  from run_quiet [OF a u, where fuel = fuel and q = q and tm = tm] obtain s''
    where "run (Suc (Suc (Suc fuel))) A rnd
       [Instr ''U3'' (Single q) [fpi A, fnum A 0, fpi A] None None None,
        Instr ''MEASURE'' (Single q) [] None None (Some tm)]
       (Simulator A [q] None None) = Some (Inr s'')"
      and "getResult s'' q = Some 1"
    by blast
  then show "map_option (map_sum id fst)
     (flush (Suc (Suc (Suc fuel))) A rnd (Some q)
        (Simulator A [q] None None, xThenMeasure q tx tm))
     = Some (Inr (Some 1))"
    by (rule flush_result [OF c])
qed

text \<open>In exact real arithmetic, with every draw equal to 0.\<close>

theorem saturated_gate_error_undoes_x_witness:
  "arithAtX real_arith \<and> unitDraws real_arith noDraws \<and>
   compile real_arith (xThenMeasure (0::nat) 1 2)
     = Inr [Instr ''U3'' (Single 0) [pi, 0, pi] None None None,
            Instr ''MEASURE'' (Single 0) [] None None (Some 2)] \<and>
   map_option (map_sum id fst)
     (flush (Suc (Suc (Suc 0))) real_arith noDraws (Some (0::nat))
        (Simulator real_arith [0] (Some (gateErrorOnly real_arith)) None, xThenMeasure 0 1 2))
     = Some (Inr (Some 0)) \<and>
   map_option (map_sum id fst)
     (flush (Suc (Suc (Suc 0))) real_arith noDraws (Some (0::nat))
        (Simulator real_arith [0] None None, xThenMeasure 0 1 2))
     = Some (Inr (Some 1))"
proof -
  have u: "unitDraws real_arith noDraws" by (simp add: unitDraws_def noDraws_def)
  note t = saturated_gate_error_undoes_x [where A = real_arith and rnd = noDraws and fuel = 0
      and q = "0::nat" and tx = 1 and tm = 2]
  from t real_arithAtX u show ?thesis by simp
qed

section \<open>Releasing a qubit\<close>

text \<open>
  Claim C7. For an allocated handle \<open>h\<close> and any simulator object: when \<^verbatim>\<open>isZero(h)\<close>
  returns true, \<^verbatim>\<open>release\<close> returns and the registry is the old one without \<open>h\<close>; when
  it returns false, \<^verbatim>\<open>release\<close> throws its fatal error and the registry is the old one.
  So it throws the fatal error iff \<^verbatim>\<open>isZero(h)\<close> is false and returns iff it is true;
  whenever it throws, \<open>h\<close> is still allocated and the registry unchanged, and when it
  returns, \<open>h\<close> is not allocated and every other handle is as before.
\<close>

theorem release_fatal_iff_not_zero:
  "isAllocated registry h \<Longrightarrow>
   (simIsZero h = Inr True \<longrightarrow> release simIsZero h registry = (None, registry - {h})) \<and>
   (simIsZero h = Inr False \<longrightarrow>
      release simIsZero h registry = (Some (Own (FatalMustReset h)), registry)) \<and>
   (fst (release simIsZero h registry) = Some (Own (FatalMustReset h))
      \<longleftrightarrow> simIsZero h = Inr False) \<and>
   (fst (release simIsZero h registry) = None \<longleftrightarrow> simIsZero h = Inr True) \<and>
   (fst (release simIsZero h registry) \<noteq> None
      \<longrightarrow> isAllocated (snd (release simIsZero h registry)) h \<and>
          snd (release simIsZero h registry) = registry) \<and>
   (fst (release simIsZero h registry) = None
      \<longrightarrow> \<not> isAllocated (snd (release simIsZero h registry)) h \<and>
          (\<forall>h'. h' \<noteq> h \<longrightarrow>
             isAllocated (snd (release simIsZero h registry)) h' = isAllocated registry h'))"
  by (cases "simIsZero h") (auto simp: release_def isAllocated_def)

text \<open>
  Two handles, the simulator on the first of them. Fresh, its qubit is zero and the
  release removes it and keeps the other handle; after an X it is not, and the release
  throws and removes nothing.
\<close>

theorem release_fatal_iff_not_zero_witness:
  "isAllocated {0::nat, 1} 0 \<and>
   isZero real_arith 0 sim1 = Inr True \<and>
   release (\<lambda>q. isZero real_arith q sim1) 0 {0::nat, 1} = (None, {1}) \<and>
   isZero real_arith 0 (case applyGate real_arith ''X'' 0 [] sim1 of Inr s \<Rightarrow> s | Inl e \<Rightarrow> sim1)
     = Inr False \<and>
   release (\<lambda>q. isZero real_arith q
               (case applyGate real_arith ''X'' 0 [] sim1 of Inr s \<Rightarrow> s | Inl e \<Rightarrow> sim1))
     0 {0::nat, 1}
     = (Some (Own (FatalMustReset 0)), {0, 1})"
proof -
  have a: "isAllocated {0::nat, 1} 0" by (simp add: isAllocated_def)
  have z: "isZero real_arith 0 sim1 = Inr True"
    by (simp add: isZero_def getEffectiveEpsilon_def sim1_def eval_defs)
  have n: "isZero real_arith 0
             (case applyGate real_arith ''X'' 0 [] sim1 of Inr s \<Rightarrow> s | Inl e \<Rightarrow> sim1)
           = Inr False"
    by (simp add: isZero_def getEffectiveEpsilon_def sim1_def eval_defs)
  note t1 = release_fatal_iff_not_zero [OF a, of "\<lambda>q. isZero real_arith q sim1"]
  note t2 = release_fatal_iff_not_zero [OF a, of "\<lambda>q. isZero real_arith q
      (case applyGate real_arith ''X'' 0 [] sim1 of Inr s \<Rightarrow> s | Inl e \<Rightarrow> sim1)"]
  from t1 z have "release (\<lambda>q. isZero real_arith q sim1) 0 {0::nat, 1} = (None, {0, 1} - {0})"
    by blast
  then have r1: "release (\<lambda>q. isZero real_arith q sim1) 0 {0::nat, 1} = (None, {1})"
    by simp
  from t2 n have r2: "release (\<lambda>q. isZero real_arith q
               (case applyGate real_arith ''X'' 0 [] sim1 of Inr s \<Rightarrow> s | Inl e \<Rightarrow> sim1))
     0 {0::nat, 1}
     = (Some (Own (FatalMustReset 0)), {0, 1})"
    by blast
  from a z r1 n r2 show ?thesis by blast
qed

section \<open>A recorder operation that fails\<close>

lemma ops_single_fail:
  "ops_single g ps registry now q circuit = (Some e, circuit') \<Longrightarrow> circuit' = circuit"
  by (auto simp: ops_single_def split: option.splits)

lemma invoke_fail:
  "invoke registry now call circuit = (Some (Own e), circuit') \<Longrightarrow> circuit' = circuit"
proof (cases call)
  case (CallIF q v cb)
  assume "invoke registry now call circuit = (Some (Own e), circuit')"
  with CallIF show ?thesis
    by (auto simp: ops_if_def ops_block_def split: option.splits prod.splits sum.splits)
next
  case (CallWHILE q v cb)
  assume "invoke registry now call circuit = (Some (Own e), circuit')"
  with CallWHILE show ?thesis
    by (auto simp: ops_while_def ops_block_def split: option.splits prod.splits sum.splits)
qed (auto simp: ops_h_def ops_x_def ops_y_def ops_z_def ops_s_def ops_t_def ops_rx_def
      ops_ry_def ops_rz_def ops_u3_def ops_reset_def ops_cnot_def ops_cz_def ops_rzz_def
      ops_swap_def ops_ccx_def
      dest: ops_single_fail split: option.splits if_splits)

lemma ops_m_fail:
  "ops_m registry now onFlush q circuit = (Inl (Own e), circuit') \<Longrightarrow> circuit' = circuit"
  by (auto simp: ops_m_def split: option.splits prod.splits sum.splits)

text \<open>
  Claim C9. An operation of the recorder that throws one of its own errors (handle not
  allocated, control equal to target for cnot and cz, swap of a qubit with itself)
  leaves the buffer as it was; and these errors are thrown on such calls.
\<close>

theorem failed_operation_appends_nothing:
  "((invoke registry now call circuit :: ('q, 'x) thrown option \<times> ('q, 'a) circuit)
      = (Some (Own e), circuit') \<longrightarrow> circuit' = circuit) \<and>
   ((ops_m registry now onFlush q circuit :: (('q, 'x) thrown + 'r) \<times> ('q, 'a) circuit)
      = (Inl (Own e), circuit'') \<longrightarrow> circuit'' = circuit) \<and>
   (\<not> isAllocated registry q \<longrightarrow>
      (ops_m registry now onFlush q circuit :: (('q, 'x) thrown + 'r) \<times> ('q, 'a) circuit)
        = (Inl (Own (UsageNotAllocated q)), circuit) \<and>
      (ops_single g ps registry now q circuit :: ('q, 'x) thrown option \<times> ('q, 'a) circuit)
        = (Some (Own (UsageNotAllocated q)), circuit)) \<and>
   (isAllocated registry q \<longrightarrow>
      (ops_cnot registry now q q circuit :: ('q, 'x) thrown option \<times> ('q, 'a) circuit)
        = (Some (Own (PhysicsSelfControl q)), circuit) \<and>
      (ops_cz registry now q q circuit :: ('q, 'x) thrown option \<times> ('q, 'a) circuit)
        = (Some (Own (PhysicsSelfControl q)), circuit) \<and>
      (ops_swap registry now q q circuit :: ('q, 'x) thrown option \<times> ('q, 'a) circuit)
        = (Some (Own UsageSelfSwap), circuit))"
proof (intro conjI impI)
  assume "invoke registry now call circuit = (Some (Own e), circuit')"
  then show "circuit' = circuit" by (rule invoke_fail)
next
  assume "ops_m registry now onFlush q circuit = (Inl (Own e), circuit'')"
  then show "circuit'' = circuit" by (rule ops_m_fail)
next
  assume "\<not> isAllocated registry q"
  then show "ops_m registry now onFlush q circuit = (Inl (Own (UsageNotAllocated q)), circuit)"
    and "ops_single g ps registry now q circuit = (Some (Own (UsageNotAllocated q)), circuit)"
    by (simp_all add: ops_m_def ops_single_def validate_def)
next
  assume "isAllocated registry q"
  then show "ops_cnot registry now q q circuit = (Some (Own (PhysicsSelfControl q)), circuit)"
    and "ops_cz registry now q q circuit = (Some (Own (PhysicsSelfControl q)), circuit)"
    and "ops_swap registry now q q circuit = (Some (Own UsageSelfSwap), circuit)"
    by (simp_all add: ops_cnot_def ops_cz_def ops_swap_def validate_def)
qed

text \<open>A buffer holding an H; handle 0 is allocated, handle 1 is not.\<close>

theorem failed_operation_appends_nothing_witness:
  "(invoke {0::nat} 7 (CallCNOT 0 0) [Instr ''H'' (Single 0) [] None None (Some 3)]
      :: (nat, unit) thrown option \<times> (nat, real) circuit)
     = (Some (Own (PhysicsSelfControl 0)), [Instr ''H'' (Single 0) [] None None (Some 3)]) \<and>
   \<not> isAllocated {0::nat} 1 \<and>
   (ops_single ''X'' [] {0::nat} 7 1 [Instr ''H'' (Single 0) [] None None (Some 3)]
      :: (nat, unit) thrown option \<times> (nat, real) circuit)
     = (Some (Own (UsageNotAllocated 1)), [Instr ''H'' (Single 0) [] None None (Some 3)]) \<and>
   isAllocated {0::nat} 0 \<and>
   (ops_swap {0::nat} 7 0 0 [Instr ''H'' (Single 0) [] None None (Some 3)]
      :: (nat, unit) thrown option \<times> (nat, real) circuit)
     = (Some (Own UsageSelfSwap), [Instr ''H'' (Single 0) [] None None (Some 3)])"
proof -
  have a: "isAllocated {0::nat} 0" "\<not> isAllocated {0::nat} 1" by (simp_all add: isAllocated_def)
  have i: "(invoke {0::nat} 7 (CallCNOT 0 0) [Instr ''H'' (Single 0) [] None None (Some 3)]
      :: (nat, unit) thrown option \<times> (nat, real) circuit)
     = (Some (Own (PhysicsSelfControl 0)), [Instr ''H'' (Single 0) [] None None (Some 3)])"
    by (simp add: ops_cnot_def validate_def isAllocated_def)
  note t1 = failed_operation_appends_nothing [where 'x = unit and registry = "{0::nat}"
      and q = 1 and now = 7 and circuit = "[Instr ''H'' (Single 0) [] None None (Some 3)]"
      and g = "''X''" and ps = "[]"]
  note t0 = failed_operation_appends_nothing [where 'x = unit and registry = "{0::nat}"
      and q = 0 and now = 7 and circuit = "[Instr ''H'' (Single 0) [] None None (Some 3)]"]
  from t1 a(2) have
    "(ops_single ''X'' [] {0::nat} 7 1 [Instr ''H'' (Single 0) [] None None (Some 3)]
      :: (nat, unit) thrown option \<times> (nat, real) circuit)
     = (Some (Own (UsageNotAllocated 1)), [Instr ''H'' (Single 0) [] None None (Some 3)])"
    by blast
  moreover from t0 a(1) have
    "(ops_swap {0::nat} 7 0 0 [Instr ''H'' (Single 0) [] None None (Some 3)]
      :: (nat, unit) thrown option \<times> (nat, real) circuit)
     = (Some (Own UsageSelfSwap), [Instr ''H'' (Single 0) [] None None (Some 3)])"
    by blast
  ultimately show ?thesis using a i by blast
qed

end
